theory Spec2Isabelle
  imports Main
begin

section \<open>Data model of lib/dockerregistry/types.go\<close>

text \<open>
  The string types of the package: \<open>RegistryName\<close>, \<open>ImageName\<close>, \<open>Digest\<close> and
  \<open>Tag\<close> are all Go strings; a \<open>TagSlice\<close> is a slice of tags.
\<close>

type_synonym RegistryName = string
type_synonym ImageName = string
type_synonym Digest = string
type_synonym Tag = string
type_synonym TagSlice = "Tag list"

text \<open>
  A Go \<open>map[K]V\<close> is a partial function. \<open>DigestTags\<close> is
  \<open>map[Digest]TagSlice\<close> and \<open>RegInvImage\<close> is \<open>map[ImageName]DigestTags\<close>.
\<close>

type_synonym DigestTags = "Digest \<rightharpoonup> TagSlice"
type_synonym RegInvImage = "ImageName \<rightharpoonup> DigestTags"

record ImageDigest =
  ImageName :: ImageName
  Digest :: Digest

record ImageTag =
  ImageName :: ImageName
  Tag :: Tag

type_synonym RegInvImageDigest = "ImageDigest \<rightharpoonup> TagSlice"
type_synonym RegInvImageTag = "ImageTag \<rightharpoonup> Digest"

record RegistryNames =
  Src :: RegistryName
  Dest :: RegistryName

record Image =
  ImageName :: ImageName
  Dmap :: DigestTags

record Manifest =
  Registries :: RegistryNames
  ServiceAccount :: string
  Images :: "Image list"

section \<open>Ranging over a Go map\<close>

text \<open>
  \<open>for k, v := range m\<close> visits every entry of \<open>m\<close> exactly once, in an order the
  language leaves unspecified. The order taken by one loop is a parameter of the
  model: a list \<open>ks\<close> of the keys. \<open>range_map m ks\<close> is the sequence of entries the
  loop sees; \<open>map_order m ks\<close> says that \<open>ks\<close> is an order the runtime can take,
  that is, an enumeration of the keys of \<open>m\<close> without repetition.
\<close>

definition range_map :: "('k \<rightharpoonup> 'v) \<Rightarrow> 'k list \<Rightarrow> ('k \<times> 'v) list" where
  "range_map m ks = List.map_filter (\<lambda>k. map_option (Pair k) (m k)) ks"

definition map_order :: "('k \<rightharpoonup> 'v) \<Rightarrow> 'k list \<Rightarrow> bool" where
  "map_order m ks \<longleftrightarrow> distinct ks \<and> set ks = dom m"

section \<open>The conversion functions\<close>

text \<open>
  The innermost loop of the three \<open>ToRegInvImageTag\<close> functions:
  \<open>for _, tag := range tagArray { riit[ImageTag{imageName, tag}] = digest }\<close>.
\<close>

definition tag_loop :: "ImageName \<Rightarrow> Digest \<Rightarrow> TagSlice \<Rightarrow> RegInvImageTag \<Rightarrow> RegInvImageTag" where
  "tag_loop imageName digest tagArray riit =
     fold (\<lambda>tag riit. riit(\<lparr>ImageTag.ImageName = imageName, Tag = tag\<rparr> \<mapsto> digest)) tagArray riit"

text \<open>
  The loop \<open>for digest, tagArray := range digestTags\<close> over one image, for the
  digest-keyed view (\<open>riid[ImageDigest{imageName, digest}] = tagArray\<close>) and for the
  tag-keyed view. Its argument is the sequence of entries in the order visited. The
  first loop only copies \<open>tagArray\<close>, so it is the same whether a \<open>TagSlice\<close> is taken
  as the sequence of its tags or, on the heap below, as a slice header.
\<close>

definition digest_loop_riid ::
  "ImageName \<Rightarrow> (Digest \<times> 'ts) list \<Rightarrow> (ImageDigest \<rightharpoonup> 'ts) \<Rightarrow> (ImageDigest \<rightharpoonup> 'ts)" where
  "digest_loop_riid imageName entries riid =
     fold (\<lambda>(digest, tagArray) riid.
             riid(\<lparr>ImageDigest.ImageName = imageName, Digest = digest\<rparr> \<mapsto> tagArray)) entries riid"

definition digest_loop_riit ::
  "ImageName \<Rightarrow> (Digest \<times> TagSlice) list \<Rightarrow> RegInvImageTag \<Rightarrow> RegInvImageTag" where
  "digest_loop_riit imageName entries riit =
     fold (\<lambda>(digest, tagArray) riit. tag_loop imageName digest tagArray riit) entries riit"

text \<open>
  \<open>func (ri RegInvImage) ToRegInvImageDigest()\<close>. \<open>io\<close> is the order in which the
  outer loop visits the image names of \<open>ri\<close>, and \<open>dord imageName\<close> the order in
  which the inner loop visits the digests of that image.
\<close>

definition RegInvImage_ToRegInvImageDigest ::
  "ImageName list \<Rightarrow> (ImageName \<Rightarrow> Digest list) \<Rightarrow> RegInvImage \<Rightarrow> RegInvImageDigest" where
  "RegInvImage_ToRegInvImageDigest io dord ri =
     fold (\<lambda>(imageName, digestTags) riid.
             digest_loop_riid imageName (range_map digestTags (dord imageName)) riid)
          (range_map ri io) Map.empty"

text \<open>\<open>func (ri RegInvImage) ToRegInvImageTag()\<close>, with the same two orders.\<close>

definition RegInvImage_ToRegInvImageTag ::
  "ImageName list \<Rightarrow> (ImageName \<Rightarrow> Digest list) \<Rightarrow> RegInvImage \<Rightarrow> RegInvImageTag" where
  "RegInvImage_ToRegInvImageTag io dord ri =
     fold (\<lambda>(imageName, digestTags) riit.
             digest_loop_riit imageName (range_map digestTags (dord imageName)) riit)
          (range_map ri io) Map.empty"

text \<open>
  \<open>func (riid RegInvImageDigest) ToRegInvImageTag()\<close>. \<open>ido\<close> is the order in which
  the loop visits the \<open>ImageDigest\<close> keys of \<open>riid\<close>.
\<close>

definition RegInvImageDigest_ToRegInvImageTag ::
  "ImageDigest list \<Rightarrow> RegInvImageDigest \<Rightarrow> RegInvImageTag" where
  "RegInvImageDigest_ToRegInvImageTag ido riid =
     fold (\<lambda>(imageDigest, tagArray) riit.
             tag_loop (ImageDigest.ImageName imageDigest) (Digest imageDigest) tagArray riit)
          (range_map riid ido) Map.empty"

text \<open>
  \<open>func (m Manifest) ToRegInvImageDigest()\<close> and \<open>func (m Manifest) ToRegInvImageTag()\<close>.
  The outer loop ranges over the slice \<open>m.Images\<close>, in index order. The inner loop
  ranges over the map \<open>image.Dmap\<close> of each entry; \<open>dords\<close> lists, entry by entry,
  the order in which that map is visited.
\<close>

definition Manifest_ToRegInvImageDigest :: "Digest list list \<Rightarrow> Manifest \<Rightarrow> RegInvImageDigest" where
  "Manifest_ToRegInvImageDigest dords m =
     fold (\<lambda>(image, ds) riid.
             digest_loop_riid (Image.ImageName image) (range_map (Dmap image) ds) riid)
          (zip (Images m) dords) Map.empty"

definition Manifest_ToRegInvImageTag :: "Digest list list \<Rightarrow> Manifest \<Rightarrow> RegInvImageTag" where
  "Manifest_ToRegInvImageTag dords m =
     fold (\<lambda>(image, ds) riit.
             digest_loop_riit (Image.ImageName image) (range_map (Dmap image) ds) riit)
          (zip (Images m) dords) Map.empty"

text \<open>
  The orders a run can take: for a \<open>RegInvImage\<close>, an enumeration of its image names
  and, for each image, an enumeration of its digests; for a \<open>Manifest\<close>, one
  enumeration of digests for each entry of \<open>Images\<close>.
\<close>

definition RegInvImage_order :: "RegInvImage \<Rightarrow> ImageName list \<Rightarrow> (ImageName \<Rightarrow> Digest list) \<Rightarrow> bool" where
  "RegInvImage_order ri io dord \<longleftrightarrow>
     map_order ri io \<and> (\<forall>i dt. ri i = Some dt \<longrightarrow> map_order dt (dord i))"

definition Manifest_order :: "Manifest \<Rightarrow> Digest list list \<Rightarrow> bool" where
  "Manifest_order m dords \<longleftrightarrow>
     length dords = length (Images m) \<and>
     (\<forall>(image, ds) \<in> set (zip (Images m) dords). map_order (Dmap image) ds)"

section \<open>The conversions on the Go heap\<close>

text \<open>
  In Go a map value is a reference to a map object and a slice value is a header
  (backing array, offset, length), so a conversion that stores \<open>tagArray\<close> in its
  result shares the backing array with its source. To state what a conversion
  does to its receiver, the functions are modelled a second time with the heap
  explicit. The heap is the sequence of the objects allocated so far; an address
  is an index into it.
\<close>

type_synonym addr = nat

record slice =
  array :: addr
  off :: nat
  len :: nat

text \<open>An \<open>Image\<close> struct as it lies in memory: its \<open>Dmap\<close> field is a map reference.\<close>

record stored_Image =
  i_ImageName :: ImageName
  i_Dmap :: addr

text \<open>A \<open>Manifest\<close> struct, as the receiver holds it: \<open>Images\<close> is a slice header.\<close>

record stored_Manifest =
  m_Registries :: RegistryNames
  m_ServiceAccount :: string
  m_Images :: slice

datatype object =
    TagArray "Tag list"
  | ImageArray "stored_Image list"
  | DigestTagsMap "Digest \<rightharpoonup> slice"
  | RegInvImageMap "ImageName \<rightharpoonup> addr"
  | RegInvImageDigestMap "ImageDigest \<rightharpoonup> slice"
  | RegInvImageTagMap "ImageTag \<rightharpoonup> Digest"

type_synonym heap = "object list"

definition deref :: "heap \<Rightarrow> addr \<Rightarrow> object option" where
  "deref h a = (if a < length h then Some (h ! a) else None)"

text \<open>\<open>make(...)\<close> allocates a new object and returns its address.\<close>

definition make :: "object \<Rightarrow> heap \<Rightarrow> addr \<times> heap" where
  "make obj h = (length h, h @ [obj])"

text \<open>
  Reading: the elements of a slice, and the entries of a map of each type. A nil
  map or slice is an address that holds no object of the type; ranging over it
  visits nothing.
\<close>

definition tags_of :: "heap \<Rightarrow> slice \<Rightarrow> Tag list" where
  "tags_of h s = (case deref h (array s) of
                    Some (TagArray ts) \<Rightarrow> take (len s) (drop (off s) ts)
                  | _ \<Rightarrow> [])"

definition images_of :: "heap \<Rightarrow> slice \<Rightarrow> stored_Image list" where
  "images_of h s = (case deref h (array s) of
                      Some (ImageArray imgs) \<Rightarrow> take (len s) (drop (off s) imgs)
                    | _ \<Rightarrow> [])"

definition DigestTags_entries :: "heap \<Rightarrow> addr \<Rightarrow> (Digest \<rightharpoonup> slice)" where
  "DigestTags_entries h a = (case deref h a of Some (DigestTagsMap m) \<Rightarrow> m | _ \<Rightarrow> Map.empty)"

definition RegInvImage_entries :: "heap \<Rightarrow> addr \<Rightarrow> (ImageName \<rightharpoonup> addr)" where
  "RegInvImage_entries h a = (case deref h a of Some (RegInvImageMap m) \<Rightarrow> m | _ \<Rightarrow> Map.empty)"

definition RegInvImageDigest_entries :: "heap \<Rightarrow> addr \<Rightarrow> (ImageDigest \<rightharpoonup> slice)" where
  "RegInvImageDigest_entries h a =
     (case deref h a of Some (RegInvImageDigestMap m) \<Rightarrow> m | _ \<Rightarrow> Map.empty)"

text \<open>
  Writing: \<open>riid[id] = tagArray\<close> and \<open>riit[it] = digest\<close>, where \<open>riid\<close> and \<open>riit\<close>
  hold the address of the map made at the start of the function. (A write through
  a nil map would panic in Go; the map written here has just been made, so the
  last case of the two definitions is never taken by a conversion.)
\<close>

definition riid_assign :: "addr \<Rightarrow> ImageDigest \<Rightarrow> slice \<Rightarrow> heap \<Rightarrow> heap" where
  "riid_assign riid imageDigest tagArray h =
     (case deref h riid of
        Some (RegInvImageDigestMap m) \<Rightarrow> h[riid := RegInvImageDigestMap (m(imageDigest \<mapsto> tagArray))]
      | _ \<Rightarrow> h)"

definition riit_assign :: "addr \<Rightarrow> ImageTag \<Rightarrow> Digest \<Rightarrow> heap \<Rightarrow> heap" where
  "riit_assign riit it digest h =
     (case deref h riit of
        Some (RegInvImageTagMap m) \<Rightarrow> h[riit := RegInvImageTagMap (m(it \<mapsto> digest))]
      | _ \<Rightarrow> h)"

text \<open>The loops, threading the heap.\<close>

definition heap_tag_loop :: "addr \<Rightarrow> ImageName \<Rightarrow> Digest \<Rightarrow> slice \<Rightarrow> heap \<Rightarrow> heap" where
  "heap_tag_loop riit imageName digest tagArray h =
     fold (\<lambda>tag h. riit_assign riit \<lparr>ImageTag.ImageName = imageName, Tag = tag\<rparr> digest h)
          (tags_of h tagArray) h"

definition heap_digest_loop_riid :: "addr \<Rightarrow> ImageName \<Rightarrow> addr \<Rightarrow> Digest list \<Rightarrow> heap \<Rightarrow> heap" where
  "heap_digest_loop_riid riid imageName digestTags ds h =
     fold (\<lambda>(digest, tagArray) h.
             riid_assign riid \<lparr>ImageDigest.ImageName = imageName, Digest = digest\<rparr> tagArray h)
          (range_map (DigestTags_entries h digestTags) ds) h"

definition heap_digest_loop_riit :: "addr \<Rightarrow> ImageName \<Rightarrow> addr \<Rightarrow> Digest list \<Rightarrow> heap \<Rightarrow> heap" where
  "heap_digest_loop_riit riit imageName digestTags ds h =
     fold (\<lambda>(digest, tagArray) h. heap_tag_loop riit imageName digest tagArray h)
          (range_map (DigestTags_entries h digestTags) ds) h"

text \<open>The five conversions. Each returns the address of its result and the new heap.\<close>

definition heap_RegInvImage_ToRegInvImageDigest ::
  "ImageName list \<Rightarrow> (ImageName \<Rightarrow> Digest list) \<Rightarrow> addr \<Rightarrow> heap \<Rightarrow> addr \<times> heap" where
  "heap_RegInvImage_ToRegInvImageDigest io dord ri h =
     (case make (RegInvImageDigestMap Map.empty) h of
        (riid, h1) \<Rightarrow>
          (riid, fold (\<lambda>(imageName, digestTags) h.
                         heap_digest_loop_riid riid imageName digestTags (dord imageName) h)
                      (range_map (RegInvImage_entries h1 ri) io) h1))"

definition heap_RegInvImage_ToRegInvImageTag ::
  "ImageName list \<Rightarrow> (ImageName \<Rightarrow> Digest list) \<Rightarrow> addr \<Rightarrow> heap \<Rightarrow> addr \<times> heap" where
  "heap_RegInvImage_ToRegInvImageTag io dord ri h =
     (case make (RegInvImageTagMap Map.empty) h of
        (riit, h1) \<Rightarrow>
          (riit, fold (\<lambda>(imageName, digestTags) h.
                         heap_digest_loop_riit riit imageName digestTags (dord imageName) h)
                      (range_map (RegInvImage_entries h1 ri) io) h1))"

definition heap_RegInvImageDigest_ToRegInvImageTag ::
  "ImageDigest list \<Rightarrow> addr \<Rightarrow> heap \<Rightarrow> addr \<times> heap" where
  "heap_RegInvImageDigest_ToRegInvImageTag ido riid h =
     (case make (RegInvImageTagMap Map.empty) h of
        (riit, h1) \<Rightarrow>
          (riit, fold (\<lambda>(imageDigest, tagArray) h.
                         heap_tag_loop riit (ImageDigest.ImageName imageDigest) (Digest imageDigest)
                           tagArray h)
                      (range_map (RegInvImageDigest_entries h1 riid) ido) h1))"

definition heap_Manifest_ToRegInvImageDigest ::
  "Digest list list \<Rightarrow> stored_Manifest \<Rightarrow> heap \<Rightarrow> addr \<times> heap" where
  "heap_Manifest_ToRegInvImageDigest dords m h =
     (case make (RegInvImageDigestMap Map.empty) h of
        (riid, h1) \<Rightarrow>
          (riid, fold (\<lambda>(image, ds) h.
                         heap_digest_loop_riid riid (i_ImageName image)
                           (i_Dmap image) ds h)
                      (zip (images_of h1 (m_Images m)) dords) h1))"

definition heap_Manifest_ToRegInvImageTag ::
  "Digest list list \<Rightarrow> stored_Manifest \<Rightarrow> heap \<Rightarrow> addr \<times> heap" where
  "heap_Manifest_ToRegInvImageTag dords m h =
     (case make (RegInvImageTagMap Map.empty) h of
        (riit, h1) \<Rightarrow>
          (riit, fold (\<lambda>(image, ds) h.
                         heap_digest_loop_riit riit (i_ImageName image)
                           (i_Dmap image) ds h)
                      (zip (images_of h1 (m_Images m)) dords) h1))"

text \<open>
  The values the heap holds, as the types of the first model: what a
  \<open>DigestTags\<close>, \<open>RegInvImage\<close>, \<open>RegInvImageDigest\<close>, \<open>RegInvImageTag\<close> reference and a
  \<open>Manifest\<close> struct stand for.
\<close>

definition DigestTags_at :: "heap \<Rightarrow> addr \<Rightarrow> DigestTags" where
  "DigestTags_at h a = (\<lambda>d. map_option (tags_of h) (DigestTags_entries h a d))"

definition RegInvImage_at :: "heap \<Rightarrow> addr \<Rightarrow> RegInvImage" where
  "RegInvImage_at h a = (\<lambda>i. map_option (DigestTags_at h) (RegInvImage_entries h a i))"

definition RegInvImageDigest_at :: "heap \<Rightarrow> addr \<Rightarrow> RegInvImageDigest" where
  "RegInvImageDigest_at h a = (\<lambda>k. map_option (tags_of h) (RegInvImageDigest_entries h a k))"

definition RegInvImageTag_at :: "heap \<Rightarrow> addr \<Rightarrow> RegInvImageTag" where
  "RegInvImageTag_at h a = (case deref h a of Some (RegInvImageTagMap m) \<Rightarrow> m | _ \<Rightarrow> Map.empty)"

definition Manifest_at :: "heap \<Rightarrow> stored_Manifest \<Rightarrow> Manifest" where
  "Manifest_at h m =
     \<lparr>Manifest.Registries = m_Registries m,
      ServiceAccount = m_ServiceAccount m,
      Images = map (\<lambda>image. \<lparr>Image.ImageName = i_ImageName image,
                              Dmap = DigestTags_at h (i_Dmap image)\<rparr>)
                   (images_of h (m_Images m))\<rparr>"

section \<open>Vocabulary of the claims\<close>

text \<open>
  ``Tag \<open>t\<close> occurs in the tag sequence of digest \<open>d\<close> of image \<open>i\<close>'', read off each of
  the three source structures.
\<close>

definition RegInvImage_tagged :: "RegInvImage \<Rightarrow> ImageName \<Rightarrow> Digest \<Rightarrow> Tag \<Rightarrow> bool" where
  "RegInvImage_tagged ri i d t =
     (case ri i of
        None \<Rightarrow> False
      | Some dt \<Rightarrow> (case dt d of None \<Rightarrow> False | Some ts \<Rightarrow> t \<in> set ts))"

definition RegInvImageDigest_tagged :: "RegInvImageDigest \<Rightarrow> ImageName \<Rightarrow> Digest \<Rightarrow> Tag \<Rightarrow> bool" where
  "RegInvImageDigest_tagged riid i d t =
     (case riid \<lparr>ImageDigest.ImageName = i, Digest = d\<rparr> of
        None \<Rightarrow> False
      | Some ts \<Rightarrow> t \<in> set ts)"

definition Manifest_tagged :: "Manifest \<Rightarrow> ImageName \<Rightarrow> Digest \<Rightarrow> Tag \<Rightarrow> bool" where
  "Manifest_tagged m i d t =
     (\<exists>image \<in> set (Images m). Image.ImageName image = i \<and>
        (case Dmap image d of None \<Rightarrow> False | Some ts \<Rightarrow> t \<in> set ts))"

text \<open>
  The invariant the data model states for \<open>DigestTags\<close>: within one image, a tag
  appears under at most one digest.
\<close>

definition tag_consistent :: "RegInvImage \<Rightarrow> bool" where
  "tag_consistent ri \<longleftrightarrow>
     (\<forall>i t d1 d2. RegInvImage_tagged ri i d1 t \<longrightarrow> RegInvImage_tagged ri i d2 t \<longrightarrow> d1 = d2)"

text \<open>
  The inventory a manifest describes: each entry's \<open>ImageName\<close> mapped to its \<open>Dmap\<close>.
  It is only used for manifests whose entries have pairwise distinct names.
\<close>

definition Manifest_RegInvImage :: "Manifest \<Rightarrow> RegInvImage" where
  "Manifest_RegInvImage m = map_of (map (\<lambda>image. (Image.ImageName image, Dmap image)) (Images m))"

text \<open>Every image of the inventory has at least one digest.\<close>

definition nonempty_images :: "RegInvImage \<Rightarrow> bool" where
  "nonempty_images ri \<longleftrightarrow> (\<forall>i dt. ri i = Some dt \<longrightarrow> dt \<noteq> Map.empty)"

text \<open>
  Entries of a manifest with the same image name that list the same digest give
  it the same tags. It holds of every manifest whose entries have distinct names.
\<close>

definition repeated_digests_agree :: "Manifest \<Rightarrow> bool" where
  "repeated_digests_agree m \<longleftrightarrow>
     (\<forall>image1 \<in> set (Images m). \<forall>image2 \<in> set (Images m).
        Image.ImageName image1 = Image.ImageName image2 \<longrightarrow>
        (\<forall>d ts1 ts2. Dmap image1 d = Some ts1 \<longrightarrow> Dmap image2 d = Some ts2 \<longrightarrow>
           set ts1 = set ts2))"

section \<open>Example inputs\<close>

text \<open>
  A small inventory with two images, one of them holding an untagged digest, and
  one order in which a run may visit its maps.
\<close>

definition ex_ri :: RegInvImage where
  "ex_ri = [''foo'' \<mapsto> [''d1'' \<mapsto> [''v1'', ''v2''], ''d2'' \<mapsto> []],
            ''bar'' \<mapsto> [''d3'' \<mapsto> [''v1'']]]"

definition ex_io :: "ImageName list" where
  "ex_io = [''bar'', ''foo'']"

definition ex_dord :: "ImageName \<Rightarrow> Digest list" where
  "ex_dord i = (if i = ''foo'' then [''d2'', ''d1''] else if i = ''bar'' then [''d3''] else [])"

text \<open>The same inventory, built in the other order, and a second order of visit.\<close>

definition ex_ri' :: RegInvImage where
  "ex_ri' = [''bar'' \<mapsto> [''d3'' \<mapsto> [''v1'']],
             ''foo'' \<mapsto> [''d2'' \<mapsto> [], ''d1'' \<mapsto> [''v1'', ''v2'']]]"

definition ex_io' :: "ImageName list" where
  "ex_io' = [''foo'', ''bar'']"

definition ex_dord' :: "ImageName \<Rightarrow> Digest list" where
  "ex_dord' i = (if i = ''foo'' then [''d1'', ''d2''] else if i = ''bar'' then [''d3''] else [])"

text \<open>The same inventory as a manifest and as a digest-keyed view.\<close>

definition ex_m :: Manifest where
  "ex_m = \<lparr>Registries = \<lparr>Src = ''gcr.io/src'', Dest = ''gcr.io/dest''\<rparr>,
           ServiceAccount = ''sa'',
           Images = [\<lparr>Image.ImageName = ''foo'', Dmap = [''d1'' \<mapsto> [''v1'', ''v2''], ''d2'' \<mapsto> []]\<rparr>,
                     \<lparr>Image.ImageName = ''bar'', Dmap = [''d3'' \<mapsto> [''v1'']]\<rparr>]\<rparr>"

definition ex_dords :: "Digest list list" where
  "ex_dords = [[''d2'', ''d1''], [''d3'']]"

definition ex_riid :: RegInvImageDigest where
  "ex_riid = [\<lparr>ImageDigest.ImageName = ''foo'', Digest = ''d1''\<rparr> \<mapsto> [''v1'', ''v2''],
              \<lparr>ImageDigest.ImageName = ''foo'', Digest = ''d2''\<rparr> \<mapsto> [],
              \<lparr>ImageDigest.ImageName = ''bar'', Digest = ''d3''\<rparr> \<mapsto> [''v1'']]"

definition ex_ido :: "ImageDigest list" where
  "ex_ido = [\<lparr>ImageDigest.ImageName = ''bar'', Digest = ''d3''\<rparr>,
             \<lparr>ImageDigest.ImageName = ''foo'', Digest = ''d2''\<rparr>,
             \<lparr>ImageDigest.ImageName = ''foo'', Digest = ''d1''\<rparr>]"

text \<open>
  A malformed inventory: tag \<open>v1\<close> of image \<open>foo\<close> is claimed by two digests. Below
  it are orders in which a run may visit it, and the manifest with the same content.
\<close>

definition cx_ri :: RegInvImage where
  "cx_ri = [''foo'' \<mapsto> [''d1'' \<mapsto> [''v1''], ''d2'' \<mapsto> [''v1'']]]"

definition cx_io :: "ImageName list" where
  "cx_io = [''foo'']"

definition cx_dord :: "ImageName \<Rightarrow> Digest list" where
  "cx_dord i = [''d1'', ''d2'']"

definition cx_dord' :: "ImageName \<Rightarrow> Digest list" where
  "cx_dord' i = [''d2'', ''d1'']"

definition cx_ido :: "ImageDigest list" where
  "cx_ido = [\<lparr>ImageDigest.ImageName = ''foo'', Digest = ''d2''\<rparr>,
             \<lparr>ImageDigest.ImageName = ''foo'', Digest = ''d1''\<rparr>]"

definition cx_m :: Manifest where
  "cx_m = \<lparr>Registries = \<lparr>Src = ''gcr.io/src'', Dest = ''gcr.io/dest''\<rparr>,
           ServiceAccount = ''sa'',
           Images = [\<lparr>Image.ImageName = ''foo'', Dmap = [''d1'' \<mapsto> [''v1''], ''d2'' \<mapsto> [''v1'']]\<rparr>]\<rparr>"

definition cx_dords :: "Digest list list" where
  "cx_dords = [[''d1'', ''d2'']]"

text \<open>
  An inventory that knows image \<open>foo\<close> but no digest of it, and two inventories
  whose only digest is untagged.
\<close>

definition empty_image_ri :: RegInvImage where
  "empty_image_ri = [''foo'' \<mapsto> Map.empty]"

definition untagged_d1_ri :: RegInvImage where
  "untagged_d1_ri = [''foo'' \<mapsto> [''d1'' \<mapsto> []]]"

definition untagged_d2_ri :: RegInvImage where
  "untagged_d2_ri = [''foo'' \<mapsto> [''d2'' \<mapsto> []]]"

definition no_dord :: "ImageName \<Rightarrow> Digest list" where
  "no_dord i = []"

definition d1_dord :: "ImageName \<Rightarrow> Digest list" where
  "d1_dord i = [''d1'']"

definition d2_dord :: "ImageName \<Rightarrow> Digest list" where
  "d2_dord i = [''d2'']"

text \<open>A manifest that lists image \<open>foo\<close> twice.\<close>

definition dup_m :: Manifest where
  "dup_m = \<lparr>Registries = \<lparr>Src = ''gcr.io/src'', Dest = ''gcr.io/dest''\<rparr>,
            ServiceAccount = ''sa'',
            Images = [\<lparr>Image.ImageName = ''foo'', Dmap = [''d1'' \<mapsto> [''v1'']]\<rparr>,
                      \<lparr>Image.ImageName = ''foo'', Dmap = [''d1'' \<mapsto> []]\<rparr>]\<rparr>"

definition dup_dords :: "Digest list list" where
  "dup_dords = [[''d1''], [''d1'']]"

text \<open>
  A manifest that lists image \<open>foo\<close> twice and digest \<open>d1\<close> in both entries, with the
  same tags in another order.
\<close>

definition rep_m :: Manifest where
  "rep_m = \<lparr>Registries = \<lparr>Src = ''gcr.io/src'', Dest = ''gcr.io/dest''\<rparr>,
            ServiceAccount = ''sa'',
            Images = [\<lparr>Image.ImageName = ''foo'', Dmap = [''d1'' \<mapsto> [''v1'', ''v2'']]\<rparr>,
                      \<lparr>Image.ImageName = ''foo'',
                       Dmap = [''d1'' \<mapsto> [''v2'', ''v1''], ''d2'' \<mapsto> [''v3'']]\<rparr>]\<rparr>"

definition rep_dords :: "Digest list list" where
  "rep_dords = [[''d1''], [''d2'', ''d1'']]"

text \<open>
  A heap holding the inventory \<open>ex_ri\<close>: one tag array shared by three slices, the
  two \<open>DigestTags\<close> maps and, at address 3, the \<open>RegInvImage\<close> map.
\<close>

definition ex_heap :: heap where
  "ex_heap =
     [TagArray [''v1'', ''v2''],
      DigestTagsMap [''d1'' \<mapsto> \<lparr>array = 0, off = 0, len = 2\<rparr>,
                     ''d2'' \<mapsto> \<lparr>array = 0, off = 0, len = 0\<rparr>],
      DigestTagsMap [''d3'' \<mapsto> \<lparr>array = 0, off = 0, len = 1\<rparr>],
      RegInvImageMap [''foo'' \<mapsto> 1, ''bar'' \<mapsto> 2]]"

section \<open>The loops, entry by entry\<close>

lemma range_map_Nil [simp]: "range_map m [] = []"
  by (simp add: range_map_def map_filter_simps)

lemma range_map_Cons:
  "range_map m (k # ks) = (case m k of None \<Rightarrow> range_map m ks | Some v \<Rightarrow> (k, v) # range_map m ks)"
  by (simp add: range_map_def map_filter_simps split: option.splits)

lemma set_range_map: "set (range_map m ks) = {(k, v). k \<in> set ks \<and> m k = Some v}"
  by (induction ks) (auto simp: range_map_Cons split: option.splits)

lemma map_fst_range_map: "set ks \<subseteq> dom m \<Longrightarrow> map fst (range_map m ks) = ks"
  by (induction ks) (auto simp: range_map_Cons split: option.splits)

lemma distinct_range_map: "distinct ks \<Longrightarrow> distinct (map fst (range_map m ks))"
  by (induction ks) (auto simp: range_map_Cons set_range_map split: option.splits)

lemma tag_loop_apply:
  "tag_loop i d ts riit it =
     (if ImageTag.ImageName it = i \<and> Tag it \<in> set ts then Some d else riit it)"
  unfolding tag_loop_def
  by (induction ts arbitrary: riit) auto

lemma digest_loop_riid_apply:
  "digest_loop_riid i es riid k =
     (if ImageDigest.ImageName k = i
      then (case map_of (rev es) (Digest k) of Some ts \<Rightarrow> Some ts | None \<Rightarrow> riid k)
      else riid k)"
  unfolding digest_loop_riid_def
  by (cases k, induction es arbitrary: riid) (auto split: option.splits)

lemma find_append:
  "find P (xs @ ys) = (case find P xs of None \<Rightarrow> find P ys | Some x \<Rightarrow> Some x)"
  by (induction xs) auto

lemma digest_loop_riit_apply:
  "digest_loop_riit i es riit it =
     (if ImageTag.ImageName it = i
      then (case find (\<lambda>(d, ts). Tag it \<in> set ts) (rev es) of
              Some (d, ts) \<Rightarrow> Some d | None \<Rightarrow> riit it)
      else riit it)"
  unfolding digest_loop_riit_def
  by (induction es arbitrary: riit) (auto simp: tag_loop_apply find_append split: option.splits)

text \<open>
  The outer loops of the four conversions from a \<open>RegInvImage\<close> or a \<open>Manifest\<close> all
  run one digest loop per (image name, entries) pair.
\<close>

lemma RegInvImage_ToRegInvImageDigest_fold:
  "RegInvImage_ToRegInvImageDigest io dord ri =
     fold (\<lambda>(i, es). digest_loop_riid i es)
          (map (\<lambda>(i, dt). (i, range_map dt (dord i))) (range_map ri io)) Map.empty"
  by (simp add: RegInvImage_ToRegInvImageDigest_def fold_map comp_def case_prod_unfold)

lemma RegInvImage_ToRegInvImageTag_fold:
  "RegInvImage_ToRegInvImageTag io dord ri =
     fold (\<lambda>(i, es). digest_loop_riit i es)
          (map (\<lambda>(i, dt). (i, range_map dt (dord i))) (range_map ri io)) Map.empty"
  by (simp add: RegInvImage_ToRegInvImageTag_def fold_map comp_def case_prod_unfold)

lemma Manifest_ToRegInvImageDigest_fold:
  "Manifest_ToRegInvImageDigest dords m =
     fold (\<lambda>(i, es). digest_loop_riid i es)
          (map (\<lambda>(img, ds). (Image.ImageName img, range_map (Dmap img) ds))
               (zip (Images m) dords)) Map.empty"
  by (simp add: Manifest_ToRegInvImageDigest_def fold_map comp_def case_prod_unfold)

lemma Manifest_ToRegInvImageTag_fold:
  "Manifest_ToRegInvImageTag dords m =
     fold (\<lambda>(i, es). digest_loop_riit i es)
          (map (\<lambda>(img, ds). (Image.ImageName img, range_map (Dmap img) ds))
               (zip (Images m) dords)) Map.empty"
  by (simp add: Manifest_ToRegInvImageTag_def fold_map comp_def case_prod_unfold)

lemma image_loop_riid_apply:
  "distinct (map fst ies) \<Longrightarrow>
   fold (\<lambda>(i, es). digest_loop_riid i es) ies riid k =
     (case map_of ies (ImageDigest.ImageName k) of
        None \<Rightarrow> riid k
      | Some es \<Rightarrow> (case map_of (rev es) (Digest k) of Some ts \<Rightarrow> Some ts | None \<Rightarrow> riid k))"
proof (induction ies arbitrary: riid)
  case Nil
  then show ?case by simp
next
  case (Cons a ies)
  obtain i es where a: "a = (i, es)" by (cases a)
  from Cons.prems a have notin: "map_of ies i = None"
    by (simp add: map_of_eq_None_iff)
  from Cons.prems have "distinct (map fst ies)" by simp
  from Cons.IH [OF this] a notin show ?case
    by (auto simp: digest_loop_riid_apply split: option.splits)
qed

lemma image_loop_riit_apply:
  "distinct (map fst ies) \<Longrightarrow>
   fold (\<lambda>(i, es). digest_loop_riit i es) ies riit it =
     (case map_of ies (ImageTag.ImageName it) of
        None \<Rightarrow> riit it
      | Some es \<Rightarrow> (case find (\<lambda>(d, ts). Tag it \<in> set ts) (rev es) of
                     Some (d, ts) \<Rightarrow> Some d | None \<Rightarrow> riit it))"
proof (induction ies arbitrary: riit)
  case Nil
  then show ?case by simp
next
  case (Cons a ies)
  obtain i es where a: "a = (i, es)" by (cases a)
  from Cons.prems a have notin: "map_of ies i = None"
    by (simp add: map_of_eq_None_iff)
  from Cons.prems have "distinct (map fst ies)" by simp
  from Cons.IH [OF this] a notin show ?case
    by (auto simp: digest_loop_riit_apply split: option.splits)
qed

lemma map_of_range_map: "map_of (range_map m ks) k = (if k \<in> set ks then m k else None)"
  by (induction ks) (auto simp: range_map_Cons split: option.splits)

lemma map_of_rev_range_map:
  assumes "distinct ks"
  shows "map_of (rev (range_map m ks)) k = (if k \<in> set ks then m k else None)"
proof -
  have "distinct (map fst (range_map m ks))"
    using assms by (rule distinct_range_map)
  then have "map_of (rev (range_map m ks)) = map_of (range_map m ks)"
    by (subst map_of_inject_set) (simp_all add: rev_map [symmetric])
  then show ?thesis by (simp add: map_of_range_map)
qed

lemma map_of_image_entries:
  "map_of (map (\<lambda>(i, dt). (i, range_map dt (dord i))) (range_map ri io)) i =
     (if i \<in> set io then map_option (\<lambda>dt. range_map dt (dord i)) (ri i) else None)"
  by (induction io) (auto simp: range_map_Cons split: option.splits)

lemma distinct_image_entries:
  "distinct io \<Longrightarrow> distinct (map fst (map (\<lambda>(i, dt). (i, range_map dt (dord i))) (range_map ri io)))"
  using distinct_range_map [of io ri] by (simp add: comp_def case_prod_unfold)

lemma RegInvImage_ToRegInvImageDigest_apply:
  assumes "RegInvImage_order ri io dord"
  shows "RegInvImage_ToRegInvImageDigest io dord ri k =
           (case ri (ImageDigest.ImageName k) of None \<Rightarrow> None | Some dt \<Rightarrow> dt (Digest k))"
proof -
  from assms have io: "distinct io" "set io = dom ri"
    and dord: "\<And>i dt. ri i = Some dt \<Longrightarrow> distinct (dord i) \<and> set (dord i) = dom dt"
    by (auto simp: RegInvImage_order_def map_order_def)
  have "RegInvImage_ToRegInvImageDigest io dord ri k =
          (case map_of (map (\<lambda>(i, dt). (i, range_map dt (dord i))) (range_map ri io))
                  (ImageDigest.ImageName k) of
             None \<Rightarrow> None
           | Some es \<Rightarrow> (case map_of (rev es) (Digest k) of Some ts \<Rightarrow> Some ts | None \<Rightarrow> None))"
    unfolding RegInvImage_ToRegInvImageDigest_fold
    by (rule image_loop_riid_apply [OF distinct_image_entries [OF io(1)]])
  also have "\<dots> = (case ri (ImageDigest.ImageName k) of None \<Rightarrow> None | Some dt \<Rightarrow> dt (Digest k))"
  proof (cases "ri (ImageDigest.ImageName k)")
    case None
    then show ?thesis by (simp add: map_of_image_entries)
  next
    case (Some dt)
    then have "ImageDigest.ImageName k \<in> set io" using io by auto
    with Some dord [OF Some] show ?thesis
      by (auto simp: map_of_image_entries map_of_rev_range_map split: option.splits)
  qed
  finally show ?thesis .
qed

lemma find_SomeD: "find P xs = Some x \<Longrightarrow> x \<in> set xs \<and> P x"
  by (induction xs) (auto split: if_splits)

lemma digest_loop_riid_dom:
  "dom (digest_loop_riid i es riid) =
     dom riid \<union> {k. ImageDigest.ImageName k = i \<and> Digest k \<in> fst ` set es}"
proof (rule set_eqI)
  fix k
  show "k \<in> dom (digest_loop_riid i es riid) \<longleftrightarrow>
        k \<in> dom riid \<union> {k. ImageDigest.ImageName k = i \<and> Digest k \<in> fst ` set es}"
  proof (cases "map_of (rev es) (Digest k)")
    case None
    then have "Digest k \<notin> fst ` set es" by (simp add: map_of_eq_None_iff)
    with None show ?thesis by (auto simp: digest_loop_riid_apply dom_def)
  next
    case (Some ts)
    then have "Digest k \<in> fst ` set es"
      by (metis map_of_eq_None_iff option.distinct(1) set_rev)
    with Some show ?thesis by (auto simp: digest_loop_riid_apply dom_def)
  qed
qed

lemma image_loop_riid_dom:
  "dom (fold (\<lambda>(i, es). digest_loop_riid i es) ies riid) =
     dom riid \<union> {k. \<exists>es. (ImageDigest.ImageName k, es) \<in> set ies \<and> Digest k \<in> fst ` set es}"
proof (induction ies arbitrary: riid)
  case Nil
  then show ?case by simp
next
  case (Cons a ies)
  obtain i es where a: "a = (i, es)" by (cases a)
  show ?case
    unfolding a by (simp add: Cons.IH digest_loop_riid_dom) blast
qed

lemma digest_loop_riit_sound:
  assumes "digest_loop_riit i es riit it = Some d"
  shows "riit it = Some d \<or>
         (ImageTag.ImageName it = i \<and> (\<exists>ts. (d, ts) \<in> set es \<and> Tag it \<in> set ts))"
proof (cases "ImageTag.ImageName it = i")
  case False
  with assms show ?thesis by (simp add: digest_loop_riit_apply)
next
  case True
  show ?thesis
  proof (cases "find (\<lambda>(d, ts). Tag it \<in> set ts) (rev es)")
    case None
    with assms True show ?thesis by (simp add: digest_loop_riit_apply)
  next
    case (Some e)
    obtain d' ts where e: "e = (d', ts)" by (cases e)
    from find_SomeD [OF Some] e have "(d', ts) \<in> set es" "Tag it \<in> set ts" by auto
    moreover from assms True Some e have "d' = d" by (simp add: digest_loop_riit_apply)
    ultimately show ?thesis using True by blast
  qed
qed

lemma digest_loop_riit_dom:
  "dom (digest_loop_riit i es riit) =
     dom riit \<union> {it. ImageTag.ImageName it = i \<and> (\<exists>d ts. (d, ts) \<in> set es \<and> Tag it \<in> set ts)}"
proof (rule set_eqI)
  fix it
  show "it \<in> dom (digest_loop_riit i es riit) \<longleftrightarrow>
        it \<in> dom riit \<union>
          {it. ImageTag.ImageName it = i \<and> (\<exists>d ts. (d, ts) \<in> set es \<and> Tag it \<in> set ts)}"
  proof (cases "find (\<lambda>(d, ts). Tag it \<in> set ts) (rev es)")
    case None
    then have "\<not> (\<exists>d ts. (d, ts) \<in> set es \<and> Tag it \<in> set ts)"
      by (auto simp: find_None_iff)
    with None show ?thesis by (auto simp: digest_loop_riit_apply dom_def)
  next
    case (Some e)
    obtain d ts where e: "e = (d, ts)" by (cases e)
    from find_SomeD [OF Some] e have "(d, ts) \<in> set es" "Tag it \<in> set ts" by auto
    with Some e show ?thesis by (auto simp: digest_loop_riit_apply dom_def)
  qed
qed

lemma image_loop_riit_sound:
  "fold (\<lambda>(i, es). digest_loop_riit i es) ies riit it = Some d \<Longrightarrow>
     riit it = Some d \<or>
     (\<exists>es ts. (ImageTag.ImageName it, es) \<in> set ies \<and> (d, ts) \<in> set es \<and> Tag it \<in> set ts)"
proof (induction ies arbitrary: riit)
  case Nil
  then show ?case by simp
next
  case (Cons a ies)
  obtain i es where a: "a = (i, es)" by (cases a)
  from Cons.prems a
  have "fold (\<lambda>(i, es). digest_loop_riit i es) ies (digest_loop_riit i es riit) it = Some d"
    by simp
  from Cons.IH [OF this] show ?case
  proof
    assume "digest_loop_riit i es riit it = Some d"
    from digest_loop_riit_sound [OF this] show ?thesis
      unfolding a by (simp only: list.set insert_iff prod.inject) blast
  next
    assume "\<exists>es ts. (ImageTag.ImageName it, es) \<in> set ies \<and> (d, ts) \<in> set es \<and> Tag it \<in> set ts"
    then show ?thesis
      by (simp only: list.set insert_iff) blast
  qed
qed

lemma image_loop_riit_dom:
  "dom (fold (\<lambda>(i, es). digest_loop_riit i es) ies riit) =
     dom riit \<union>
     {it. \<exists>es d ts. (ImageTag.ImageName it, es) \<in> set ies \<and> (d, ts) \<in> set es \<and> Tag it \<in> set ts}"
proof (induction ies arbitrary: riit)
  case Nil
  then show ?case by simp
next
  case (Cons a ies)
  obtain i es where a: "a = (i, es)" by (cases a)
  show ?case
    unfolding a by (simp add: Cons.IH digest_loop_riit_dom) blast
qed

lemma key_loop_riit_sound:
  "fold (\<lambda>(k, ts). tag_loop (ImageDigest.ImageName k) (Digest k) ts) kes riit it = Some d \<Longrightarrow>
     riit it = Some d \<or>
     (\<exists>k ts. (k, ts) \<in> set kes \<and> ImageDigest.ImageName k = ImageTag.ImageName it \<and>
              Digest k = d \<and> Tag it \<in> set ts)"
proof (induction kes arbitrary: riit)
  case Nil
  then show ?case by simp
next
  case (Cons a kes)
  obtain k ts where a: "a = (k, ts)" by (cases a)
  from Cons.prems a
  have "fold (\<lambda>(k, ts). tag_loop (ImageDigest.ImageName k) (Digest k) ts) kes
          (tag_loop (ImageDigest.ImageName k) (Digest k) ts riit) it = Some d"
    by simp
  from Cons.IH [OF this] show ?case
  proof
    assume "tag_loop (ImageDigest.ImageName k) (Digest k) ts riit it = Some d"
    then have "riit it = Some d \<or>
        (ImageDigest.ImageName k = ImageTag.ImageName it \<and> Digest k = d \<and> Tag it \<in> set ts)"
      by (simp add: tag_loop_apply split: if_splits)
    then show ?thesis
      unfolding a by (simp only: list.set insert_iff prod.inject) blast
  next
    assume "\<exists>k ts. (k, ts) \<in> set kes \<and> ImageDigest.ImageName k = ImageTag.ImageName it \<and>
              Digest k = d \<and> Tag it \<in> set ts"
    then show ?thesis
      by (simp only: list.set insert_iff) blast
  qed
qed

lemma tag_loop_dom:
  "it \<in> dom (tag_loop i d ts riit) \<longleftrightarrow>
     it \<in> dom riit \<or> (ImageTag.ImageName it = i \<and> Tag it \<in> set ts)"
  by (cases "ImageTag.ImageName it = i \<and> Tag it \<in> set ts")
     (simp_all add: tag_loop_apply dom_def, blast)

lemma key_loop_riit_dom:
  "it \<in> dom (fold (\<lambda>(k, ts). tag_loop (ImageDigest.ImageName k) (Digest k) ts) kes riit) \<longleftrightarrow>
     it \<in> dom riit \<or>
     (\<exists>(k, ts) \<in> set kes. ImageDigest.ImageName k = ImageTag.ImageName it \<and> Tag it \<in> set ts)"
proof (induction kes arbitrary: riit)
  case Nil
  then show ?case by simp
next
  case (Cons a kes)
  obtain k ts where a: "a = (k, ts)" by (cases a)
  show ?case
    unfolding a by (simp add: Cons.IH tag_loop_dom eq_commute [of "ImageTag.ImageName it"] disj_assoc)
qed

section \<open>What each conversion writes\<close>

lemma in_RegInvImage_entries:
  "(i, es) \<in> set (map (\<lambda>(i, dt). (i, range_map dt (dord i))) (range_map ri io)) \<longleftrightarrow>
     i \<in> set io \<and> (\<exists>dt. ri i = Some dt \<and> es = range_map dt (dord i))"
  by (auto simp: set_range_map)

lemma in_Manifest_entries:
  "(i, es) \<in> set (map (\<lambda>(img, ds). (Image.ImageName img, range_map (Dmap img) ds))
                     (zip (Images m) dords)) \<longleftrightarrow>
     (\<exists>img ds. (img, ds) \<in> set (zip (Images m) dords) \<and> i = Image.ImageName img \<and>
                 es = range_map (Dmap img) ds)"
  by auto

lemma Manifest_order_entry:
  assumes "Manifest_order m dords" and "img \<in> set (Images m)"
  shows "\<exists>ds. (img, ds) \<in> set (zip (Images m) dords) \<and> map_order (Dmap img) ds"
proof -
  from assms(1) have len: "length (Images m) = length dords"
    and ord: "\<And>img ds. (img, ds) \<in> set (zip (Images m) dords) \<Longrightarrow> map_order (Dmap img) ds"
    by (auto simp: Manifest_order_def)
  from assms(2) len obtain ds where "(img, ds) \<in> set (zip (Images m) dords)"
    by (metis in_set_impl_in_set_zip1)
  with ord show ?thesis by blast
qed

lemma RegInvImage_tagged_iff:
  "RegInvImage_tagged ri i d t \<longleftrightarrow> (\<exists>dt ts. ri i = Some dt \<and> dt d = Some ts \<and> t \<in> set ts)"
  by (auto simp: RegInvImage_tagged_def split: option.splits)

lemma RegInvImage_ToRegInvImageTag_sound:
  assumes "RegInvImage_ToRegInvImageTag io dord ri it = Some d"
  shows "RegInvImage_tagged ri (ImageTag.ImageName it) d (Tag it)"
proof -
  from image_loop_riit_sound [OF assms [unfolded RegInvImage_ToRegInvImageTag_fold]]
  obtain es ts where es: "(ImageTag.ImageName it, es)
        \<in> set (map (\<lambda>(i, dt). (i, range_map dt (dord i))) (range_map ri io))"
    and ts: "(d, ts) \<in> set es" "Tag it \<in> set ts"
    by blast
  from es obtain dt where "ri (ImageTag.ImageName it) = Some dt"
    "es = range_map dt (dord (ImageTag.ImageName it))"
    unfolding in_RegInvImage_entries by blast
  with ts show ?thesis
    unfolding RegInvImage_tagged_iff by (auto simp: set_range_map)
qed

lemma RegInvImage_ToRegInvImageTag_dom:
  assumes "RegInvImage_order ri io dord"
  shows "it \<in> dom (RegInvImage_ToRegInvImageTag io dord ri) \<longleftrightarrow>
         (\<exists>d. RegInvImage_tagged ri (ImageTag.ImageName it) d (Tag it))"
proof
  assume "it \<in> dom (RegInvImage_ToRegInvImageTag io dord ri)"
  then obtain d where "RegInvImage_ToRegInvImageTag io dord ri it = Some d" by auto
  then show "\<exists>d. RegInvImage_tagged ri (ImageTag.ImageName it) d (Tag it)"
    by (blast dest: RegInvImage_ToRegInvImageTag_sound)
next
  from assms have io: "set io = dom ri"
    and dord: "\<And>i dt. ri i = Some dt \<Longrightarrow> set (dord i) = dom dt"
    by (auto simp: RegInvImage_order_def map_order_def)
  assume "\<exists>d. RegInvImage_tagged ri (ImageTag.ImageName it) d (Tag it)"
  then obtain d dt ts where dt: "ri (ImageTag.ImageName it) = Some dt"
    and ts: "dt d = Some ts" "Tag it \<in> set ts"
    unfolding RegInvImage_tagged_iff by blast
  from dt io have "(ImageTag.ImageName it, range_map dt (dord (ImageTag.ImageName it)))
        \<in> set (map (\<lambda>(i, dt). (i, range_map dt (dord i))) (range_map ri io))"
    unfolding in_RegInvImage_entries by blast
  moreover from dord [OF dt] ts(1)
  have "(d, ts) \<in> set (range_map dt (dord (ImageTag.ImageName it)))"
    by (auto simp: set_range_map)
  ultimately show "it \<in> dom (RegInvImage_ToRegInvImageTag io dord ri)"
    unfolding RegInvImage_ToRegInvImageTag_fold image_loop_riit_dom
    using ts(2) by blast
qed

lemma Manifest_ToRegInvImageTag_sound:
  assumes "Manifest_ToRegInvImageTag dords m it = Some d"
  shows "Manifest_tagged m (ImageTag.ImageName it) d (Tag it)"
proof -
  from image_loop_riit_sound [OF assms [unfolded Manifest_ToRegInvImageTag_fold]]
  obtain es ts where es: "(ImageTag.ImageName it, es)
        \<in> set (map (\<lambda>(img, ds). (Image.ImageName img, range_map (Dmap img) ds))
                  (zip (Images m) dords))"
    and ts: "(d, ts) \<in> set es" "Tag it \<in> set ts"
    by blast
  from es obtain img ds where "(img, ds) \<in> set (zip (Images m) dords)"
    "ImageTag.ImageName it = Image.ImageName img" "es = range_map (Dmap img) ds"
    unfolding in_Manifest_entries by blast
  with ts have "(img, ds) \<in> set (zip (Images m) dords)"
    and "Image.ImageName img = ImageTag.ImageName it"
    and "Dmap img d = Some ts" and "Tag it \<in> set ts"
    by (auto simp: set_range_map)
  moreover from this(1) have "img \<in> set (Images m)" by (rule set_zip_leftD)
  ultimately show ?thesis by (auto simp: Manifest_tagged_def)
qed

lemma Manifest_ToRegInvImageTag_dom:
  assumes "Manifest_order m dords"
  shows "it \<in> dom (Manifest_ToRegInvImageTag dords m) \<longleftrightarrow>
         (\<exists>d. Manifest_tagged m (ImageTag.ImageName it) d (Tag it))"
proof
  assume "it \<in> dom (Manifest_ToRegInvImageTag dords m)"
  then obtain d where "Manifest_ToRegInvImageTag dords m it = Some d" by auto
  then show "\<exists>d. Manifest_tagged m (ImageTag.ImageName it) d (Tag it)"
    by (blast dest: Manifest_ToRegInvImageTag_sound)
next
  assume "\<exists>d. Manifest_tagged m (ImageTag.ImageName it) d (Tag it)"
  then obtain d img ts where img: "img \<in> set (Images m)"
    and name: "Image.ImageName img = ImageTag.ImageName it"
    and ts: "Dmap img d = Some ts" "Tag it \<in> set ts"
    by (auto simp: Manifest_tagged_def split: option.splits)
  from Manifest_order_entry [OF assms img] obtain ds
    where ds: "(img, ds) \<in> set (zip (Images m) dords)" "map_order (Dmap img) ds"
    by blast
  from ds(2) ts(1) have "(d, ts) \<in> set (range_map (Dmap img) ds)"
    by (auto simp: set_range_map map_order_def)
  moreover from ds(1) name
  have "(ImageTag.ImageName it, range_map (Dmap img) ds)
        \<in> set (map (\<lambda>(img, ds). (Image.ImageName img, range_map (Dmap img) ds))
                  (zip (Images m) dords))"
    unfolding in_Manifest_entries by metis
  ultimately show "it \<in> dom (Manifest_ToRegInvImageTag dords m)"
    unfolding Manifest_ToRegInvImageTag_fold image_loop_riit_dom
    using ts(2) by blast
qed

lemma RegInvImageDigest_ToRegInvImageTag_sound:
  assumes "RegInvImageDigest_ToRegInvImageTag ido riid it = Some d"
  shows "RegInvImageDigest_tagged riid (ImageTag.ImageName it) d (Tag it)"
proof -
  from key_loop_riit_sound [OF assms [unfolded RegInvImageDigest_ToRegInvImageTag_def]]
  obtain k ts where "riid k = Some ts" "ImageDigest.ImageName k = ImageTag.ImageName it"
    "Digest k = d" "Tag it \<in> set ts"
    by (auto simp: set_range_map)
  moreover from this have "k = \<lparr>ImageDigest.ImageName = ImageTag.ImageName it, Digest = d\<rparr>"
    by (cases k) simp
  ultimately show ?thesis by (simp add: RegInvImageDigest_tagged_def)
qed

lemma RegInvImageDigest_ToRegInvImageTag_dom:
  assumes "map_order riid ido"
  shows "it \<in> dom (RegInvImageDigest_ToRegInvImageTag ido riid) \<longleftrightarrow>
         (\<exists>d. RegInvImageDigest_tagged riid (ImageTag.ImageName it) d (Tag it))"
proof
  assume "it \<in> dom (RegInvImageDigest_ToRegInvImageTag ido riid)"
  then obtain d where "RegInvImageDigest_ToRegInvImageTag ido riid it = Some d" by auto
  then show "\<exists>d. RegInvImageDigest_tagged riid (ImageTag.ImageName it) d (Tag it)"
    by (blast dest: RegInvImageDigest_ToRegInvImageTag_sound)
next
  assume "\<exists>d. RegInvImageDigest_tagged riid (ImageTag.ImageName it) d (Tag it)"
  then obtain d ts
    where ts: "riid \<lparr>ImageDigest.ImageName = ImageTag.ImageName it, Digest = d\<rparr> = Some ts"
      "Tag it \<in> set ts"
    by (auto simp: RegInvImageDigest_tagged_def split: option.splits)
  with assms
  have "(\<lparr>ImageDigest.ImageName = ImageTag.ImageName it, Digest = d\<rparr>, ts) \<in> set (range_map riid ido)"
    by (auto simp: set_range_map map_order_def)
  with ts(2) show "it \<in> dom (RegInvImageDigest_ToRegInvImageTag ido riid)"
    unfolding RegInvImageDigest_ToRegInvImageTag_def key_loop_riit_dom
    by - (rule disjI2,
        rule bexI [of _ "(\<lparr>ImageDigest.ImageName = ImageTag.ImageName it, Digest = d\<rparr>, ts)"],
        simp_all)
qed

lemma RegInvImageDigest_tagged_view:
  assumes "RegInvImage_order ri io dord"
  shows "RegInvImageDigest_tagged (RegInvImage_ToRegInvImageDigest io dord ri) i d t \<longleftrightarrow>
         RegInvImage_tagged ri i d t"
  by (simp add: RegInvImageDigest_tagged_def RegInvImage_tagged_def
      RegInvImage_ToRegInvImageDigest_apply [OF assms] split: option.splits)

text \<open>
  Evaluating the conversions on explicit inputs: unfold the loops and run them.
\<close>

lemmas conversion_eval =
  RegInvImage_ToRegInvImageDigest_def RegInvImage_ToRegInvImageTag_def
  RegInvImageDigest_ToRegInvImageTag_def Manifest_ToRegInvImageDigest_def
  Manifest_ToRegInvImageTag_def digest_loop_riid_def digest_loop_riit_def tag_loop_def
  range_map_def map_filter_simps

lemma RegInvImage_ToRegInvImageTag_apply:
  assumes "RegInvImage_order ri io dord"
  shows "RegInvImage_ToRegInvImageTag io dord ri it =
           (case ri (ImageTag.ImageName it) of
              None \<Rightarrow> None
            | Some dt \<Rightarrow> map_option fst
                (find (\<lambda>(d, ts). Tag it \<in> set ts)
                   (rev (range_map dt (dord (ImageTag.ImageName it))))))"
proof -
  from assms have io: "distinct io" "set io = dom ri"
    by (auto simp: RegInvImage_order_def map_order_def)
  have "RegInvImage_ToRegInvImageTag io dord ri it =
          (case map_of (map (\<lambda>(i, dt). (i, range_map dt (dord i))) (range_map ri io))
                  (ImageTag.ImageName it) of
             None \<Rightarrow> None
           | Some es \<Rightarrow> (case find (\<lambda>(d, ts). Tag it \<in> set ts) (rev es) of
                          Some (d, ts) \<Rightarrow> Some d | None \<Rightarrow> None))"
    unfolding RegInvImage_ToRegInvImageTag_fold
    by (rule image_loop_riit_apply [OF distinct_image_entries [OF io(1)]])
  also have "\<dots> = (case ri (ImageTag.ImageName it) of
              None \<Rightarrow> None
            | Some dt \<Rightarrow> map_option fst
                (find (\<lambda>(d, ts). Tag it \<in> set ts)
                   (rev (range_map dt (dord (ImageTag.ImageName it))))))"
  proof (cases "ri (ImageTag.ImageName it)")
    case None
    then show ?thesis by (simp add: map_of_image_entries)
  next
    case (Some dt)
    then have "ImageTag.ImageName it \<in> set io" using io by auto
    with Some show ?thesis
      by (simp add: map_of_image_entries split: option.splits prod.splits)
  qed
  finally show ?thesis .
qed

section \<open>A manifest with distinct image names, read as an inventory\<close>

lemma Manifest_entry_names:
  "length imgs = length dords \<Longrightarrow>
   map fst (map (\<lambda>(img, ds). (Image.ImageName img, range_map (Dmap img) ds)) (zip imgs dords)) =
     map Image.ImageName imgs"
  by (induction imgs dords rule: list_induct2) simp_all

lemma map_of_Manifest_entries:
  assumes "length imgs = length dords"
  shows "map_of (map (\<lambda>(img, ds). (Image.ImageName img, range_map (Dmap img) ds)) (zip imgs dords)) i
           = Some es \<Longrightarrow>
         \<exists>img ds. (img, ds) \<in> set (zip imgs dords) \<and> Image.ImageName img = i \<and>
           es = range_map (Dmap img) ds \<and>
           map_of (map (\<lambda>img. (Image.ImageName img, Dmap img)) imgs) i = Some (Dmap img)"
  using assms
proof (induction imgs dords rule: list_induct2)
  case Nil
  then show ?case by simp
next
  case (Cons img imgs ds dords)
  show ?case
  proof (cases "Image.ImageName img = i")
    case True
    with Cons.prems have "es = range_map (Dmap img) ds" by simp
    with True show ?thesis
      by (intro exI [of _ img] exI [of _ ds]) simp
  next
    case False
    with Cons.prems
    have "map_of (map (\<lambda>(img, ds). (Image.ImageName img, range_map (Dmap img) ds))
                   (zip imgs dords)) i = Some es"
      by simp
    from Cons.IH [OF this] obtain img' ds' where "(img', ds') \<in> set (zip imgs dords)"
      "Image.ImageName img' = i" "es = range_map (Dmap img') ds'"
      "map_of (map (\<lambda>img. (Image.ImageName img, Dmap img)) imgs) i = Some (Dmap img')"
      by blast
    with False show ?thesis
      by (intro exI [of _ img'] exI [of _ ds']) simp
  qed
qed

lemma map_of_Manifest_entries_None:
  assumes "length imgs = length dords"
  shows "map_of (map (\<lambda>(img, ds). (Image.ImageName img, range_map (Dmap img) ds)) (zip imgs dords)) i
           = None \<longleftrightarrow>
         map_of (map (\<lambda>img. (Image.ImageName img, Dmap img)) imgs) i = None"
  using assms by (induction imgs dords rule: list_induct2) simp_all

lemma Manifest_ToRegInvImageDigest_apply:
  assumes "distinct (map Image.ImageName (Images m))" and "Manifest_order m dords"
  shows "Manifest_ToRegInvImageDigest dords m k =
           (case Manifest_RegInvImage m (ImageDigest.ImageName k) of
              None \<Rightarrow> None | Some dt \<Rightarrow> dt (Digest k))"
proof -
  let ?ies = "map (\<lambda>(img, ds). (Image.ImageName img, range_map (Dmap img) ds))
                (zip (Images m) dords)"
  from assms(2) have len: "length (Images m) = length dords"
    and ord: "\<And>img ds. (img, ds) \<in> set (zip (Images m) dords) \<Longrightarrow> map_order (Dmap img) ds"
    by (auto simp: Manifest_order_def)
  from assms(1) have "distinct (map fst ?ies)"
    by (simp only: Manifest_entry_names [OF len])
  then have view: "Manifest_ToRegInvImageDigest dords m k =
      (case map_of ?ies (ImageDigest.ImageName k) of
         None \<Rightarrow> None
       | Some es \<Rightarrow> (case map_of (rev es) (Digest k) of Some ts \<Rightarrow> Some ts | None \<Rightarrow> None))"
    unfolding Manifest_ToRegInvImageDigest_fold by (rule image_loop_riid_apply)
  show ?thesis
  proof (cases "map_of ?ies (ImageDigest.ImageName k)")
    case None
    with map_of_Manifest_entries_None [OF len, of "ImageDigest.ImageName k"]
    show ?thesis by (simp add: view Manifest_RegInvImage_def)
  next
    case (Some es)
    from map_of_Manifest_entries [OF len Some] obtain img ds
      where e: "(img, ds) \<in> set (zip (Images m) dords)" "es = range_map (Dmap img) ds"
        "Manifest_RegInvImage m (ImageDigest.ImageName k) = Some (Dmap img)"
      unfolding Manifest_RegInvImage_def by blast
    from ord [OF e(1)] have "distinct ds" "set ds = dom (Dmap img)"
      by (simp_all add: map_order_def)
    then have "map_of (rev es) (Digest k) = Dmap img (Digest k)"
      unfolding e(2) by (auto simp: map_of_rev_range_map)
    with Some e(3) show ?thesis
      by (simp add: view split: option.splits)
  qed
qed

lemma Manifest_RegInvImage_Some:
  assumes "distinct (map Image.ImageName (Images m))"
  shows "Manifest_RegInvImage m i = Some dt \<longleftrightarrow>
         (\<exists>img \<in> set (Images m). Image.ImageName img = i \<and> Dmap img = dt)"
proof -
  from assms have "distinct (map fst (map (\<lambda>img. (Image.ImageName img, Dmap img)) (Images m)))"
    by (simp add: comp_def)
  then show ?thesis
    unfolding Manifest_RegInvImage_def by (simp only: map_of_eq_Some_iff) auto
qed

lemma Manifest_tagged_RegInvImage:
  assumes "distinct (map Image.ImageName (Images m))"
  shows "Manifest_tagged m i d t \<longleftrightarrow> RegInvImage_tagged (Manifest_RegInvImage m) i d t"
proof
  assume "Manifest_tagged m i d t"
  then obtain img ts where "img \<in> set (Images m)" "Image.ImageName img = i"
    "Dmap img d = Some ts" "t \<in> set ts"
    by (auto simp: Manifest_tagged_def split: option.splits)
  moreover from this have "Manifest_RegInvImage m i = Some (Dmap img)"
    unfolding Manifest_RegInvImage_Some [OF assms] by blast
  ultimately show "RegInvImage_tagged (Manifest_RegInvImage m) i d t"
    unfolding RegInvImage_tagged_iff by blast
next
  assume "RegInvImage_tagged (Manifest_RegInvImage m) i d t"
  then obtain dt ts where dt: "Manifest_RegInvImage m i = Some dt" "dt d = Some ts" "t \<in> set ts"
    unfolding RegInvImage_tagged_iff by blast
  from dt(1) obtain img where "img \<in> set (Images m)" "Image.ImageName img = i" "Dmap img = dt"
    unfolding Manifest_RegInvImage_Some [OF assms] by blast
  with dt(2,3) show "Manifest_tagged m i d t"
    unfolding Manifest_tagged_def by (intro bexI [of _ img]) simp_all
qed

lemma Manifest_ToRegInvImageTag_apply:
  assumes "distinct (map Image.ImageName (Images m))" and "Manifest_order m dords"
  shows "Manifest_ToRegInvImageTag dords m it =
           (case map_of (map (\<lambda>(img, ds). (Image.ImageName img, range_map (Dmap img) ds))
                          (zip (Images m) dords)) (ImageTag.ImageName it) of
              None \<Rightarrow> None
            | Some es \<Rightarrow> map_option fst (find (\<lambda>(d, ts). Tag it \<in> set ts) (rev es)))"
proof -
  let ?ies = "map (\<lambda>(img, ds). (Image.ImageName img, range_map (Dmap img) ds))
                (zip (Images m) dords)"
  from assms(2) have len: "length (Images m) = length dords"
    by (simp add: Manifest_order_def)
  from assms(1) have "distinct (map fst ?ies)"
    by (simp only: Manifest_entry_names [OF len])
  then have "Manifest_ToRegInvImageTag dords m it =
      (case map_of ?ies (ImageTag.ImageName it) of
         None \<Rightarrow> None
       | Some es \<Rightarrow> (case find (\<lambda>(d, ts). Tag it \<in> set ts) (rev es) of
                      Some (d, ts) \<Rightarrow> Some d | None \<Rightarrow> None))"
    unfolding Manifest_ToRegInvImageTag_fold by (rule image_loop_riit_apply)
  then show ?thesis
    by (simp split: option.splits prod.splits)
qed

section \<open>A manifest that repeats an image name\<close>

lemma digest_loop_riid_sound:
  assumes "digest_loop_riid i es riid k = Some ts"
  shows "riid k = Some ts \<or> (ImageDigest.ImageName k = i \<and> (Digest k, ts) \<in> set es)"
proof (cases "ImageDigest.ImageName k = i")
  case False
  with assms show ?thesis by (simp add: digest_loop_riid_apply)
next
  case True
  show ?thesis
  proof (cases "map_of (rev es) (Digest k)")
    case None
    with assms True show ?thesis by (simp add: digest_loop_riid_apply)
  next
    case (Some ts')
    with assms True have "ts' = ts" by (simp add: digest_loop_riid_apply)
    with Some have "map_of (rev es) (Digest k) = Some ts" by simp
    then have "(Digest k, ts) \<in> set (rev es)" by (rule map_of_SomeD)
    with True show ?thesis by simp
  qed
qed

lemma image_loop_riid_sound:
  "fold (\<lambda>(i, es). digest_loop_riid i es) ies riid k = Some ts \<Longrightarrow>
     riid k = Some ts \<or> (\<exists>es. (ImageDigest.ImageName k, es) \<in> set ies \<and> (Digest k, ts) \<in> set es)"
proof (induction ies arbitrary: riid)
  case Nil
  then show ?case by simp
next
  case (Cons a ies)
  obtain i es where a: "a = (i, es)" by (cases a)
  from Cons.prems a
  have "fold (\<lambda>(i, es). digest_loop_riid i es) ies (digest_loop_riid i es riid) k = Some ts"
    by simp
  from Cons.IH [OF this] show ?case
  proof
    assume "digest_loop_riid i es riid k = Some ts"
    from digest_loop_riid_sound [OF this] show ?thesis
      unfolding a by (simp only: list.set insert_iff prod.inject) blast
  next
    assume "\<exists>es. (ImageDigest.ImageName k, es) \<in> set ies \<and> (Digest k, ts) \<in> set es"
    then show ?thesis
      by (simp only: list.set insert_iff) blast
  qed
qed

lemma Manifest_ToRegInvImageDigest_sound:
  assumes "Manifest_ToRegInvImageDigest dords m k = Some ts"
  shows "\<exists>img \<in> set (Images m).
           Image.ImageName img = ImageDigest.ImageName k \<and> Dmap img (Digest k) = Some ts"
proof -
  from image_loop_riid_sound [OF assms [unfolded Manifest_ToRegInvImageDigest_fold]]
  have "\<exists>es. (ImageDigest.ImageName k, es)
        \<in> set (map (\<lambda>(img, ds). (Image.ImageName img, range_map (Dmap img) ds))
                  (zip (Images m) dords)) \<and> (Digest k, ts) \<in> set es"
    by (simp only: option.distinct simp_thms)
  then obtain es where es: "(ImageDigest.ImageName k, es)
        \<in> set (map (\<lambda>(img, ds). (Image.ImageName img, range_map (Dmap img) ds))
                  (zip (Images m) dords))"
    and ts: "(Digest k, ts) \<in> set es"
    by blast
  from es obtain img ds where "(img, ds) \<in> set (zip (Images m) dords)"
    "ImageDigest.ImageName k = Image.ImageName img" "es = range_map (Dmap img) ds"
    unfolding in_Manifest_entries by blast
  with ts have "img \<in> set (Images m)" "Image.ImageName img = ImageDigest.ImageName k"
    "Dmap img (Digest k) = Some ts"
    by (auto simp: set_range_map dest: set_zip_leftD)
  then show ?thesis by blast
qed

lemma Manifest_ToRegInvImageDigest_present:
  assumes "Manifest_order m dords" and "img \<in> set (Images m)" and "Dmap img d = Some ts"
  shows "\<lparr>ImageDigest.ImageName = Image.ImageName img, Digest = d\<rparr>
           \<in> dom (Manifest_ToRegInvImageDigest dords m)"
proof -
  from Manifest_order_entry [OF assms(1,2)] obtain ds
    where ds: "(img, ds) \<in> set (zip (Images m) dords)" "map_order (Dmap img) ds"
    by blast
  from ds(2) assms(3) have "d \<in> fst ` set (range_map (Dmap img) ds)"
    by (force simp: set_range_map map_order_def)
  moreover from ds(1)
  have "(Image.ImageName img, range_map (Dmap img) ds)
        \<in> set (map (\<lambda>(img, ds). (Image.ImageName img, range_map (Dmap img) ds))
                  (zip (Images m) dords))"
    unfolding in_Manifest_entries by blast
  ultimately show ?thesis
    unfolding Manifest_ToRegInvImageDigest_fold image_loop_riid_dom
    by simp blast
qed

lemma distinct_names_agree:
  assumes "distinct (map Image.ImageName (Images m))"
  shows "repeated_digests_agree m"
proof -
  have "img1 = img2"
    if "img1 \<in> set (Images m)" "img2 \<in> set (Images m)"
      "Image.ImageName img1 = Image.ImageName img2" for img1 img2
    using assms that by (meson distinct_map inj_onD)
  then show ?thesis
    unfolding repeated_digests_agree_def by fastforce
qed

section \<open>The heap: reading around the result\<close>

lemma deref_append: "deref (h @ [obj]) a = (if a = length h then Some obj else deref h a)"
  by (auto simp: deref_def nth_append)

lemma deref_update:
  "deref h r = Some old \<Longrightarrow> deref (h[r := new]) a = (if a = r then Some new else deref h a)"
  by (auto simp: deref_def split: if_splits)

lemma update_same: "deref h r = Some obj \<Longrightarrow> h[r := obj] = h"
  by (auto simp: deref_def split: if_splits)

text \<open>
  A new or rewritten \<open>RegInvImageTag\<close> map is invisible to everything a conversion
  reads: the tag arrays, the image arrays and the maps of the three other types.
\<close>

lemma reads_append_riit:
  "tags_of (h @ [RegInvImageTagMap m]) = tags_of h"
  "images_of (h @ [RegInvImageTagMap m]) = images_of h"
  "DigestTags_entries (h @ [RegInvImageTagMap m]) = DigestTags_entries h"
  "RegInvImage_entries (h @ [RegInvImageTagMap m]) = RegInvImage_entries h"
  "RegInvImageDigest_entries (h @ [RegInvImageTagMap m]) = RegInvImageDigest_entries h"
  by (rule ext;
      simp add: tags_of_def images_of_def DigestTags_entries_def RegInvImage_entries_def
        RegInvImageDigest_entries_def deref_append;
      simp add: deref_def)+

lemma reads_update_riit:
  assumes "deref h r = Some (RegInvImageTagMap m)"
  shows "tags_of (h[r := RegInvImageTagMap m']) = tags_of h"
    and "images_of (h[r := RegInvImageTagMap m']) = images_of h"
    and "DigestTags_entries (h[r := RegInvImageTagMap m']) = DigestTags_entries h"
    and "RegInvImage_entries (h[r := RegInvImageTagMap m']) = RegInvImage_entries h"
    and "RegInvImageDigest_entries (h[r := RegInvImageTagMap m']) = RegInvImageDigest_entries h"
  using assms
  by (auto simp: fun_eq_iff tags_of_def images_of_def DigestTags_entries_def RegInvImage_entries_def
        RegInvImageDigest_entries_def deref_update)

lemma reads_append_riid:
  "tags_of (h @ [RegInvImageDigestMap m]) = tags_of h"
  "images_of (h @ [RegInvImageDigestMap m]) = images_of h"
  "DigestTags_entries (h @ [RegInvImageDigestMap m]) = DigestTags_entries h"
  "RegInvImage_entries (h @ [RegInvImageDigestMap m]) = RegInvImage_entries h"
  by (rule ext;
      simp add: tags_of_def images_of_def DigestTags_entries_def RegInvImage_entries_def
        deref_append;
      simp add: deref_def)+

lemma reads_update_riid:
  assumes "deref h r = Some (RegInvImageDigestMap m)"
  shows "tags_of (h[r := RegInvImageDigestMap m']) = tags_of h"
    and "images_of (h[r := RegInvImageDigestMap m']) = images_of h"
    and "DigestTags_entries (h[r := RegInvImageDigestMap m']) = DigestTags_entries h"
    and "RegInvImage_entries (h[r := RegInvImageDigestMap m']) = RegInvImage_entries h"
  using assms
  by (auto simp: fun_eq_iff tags_of_def images_of_def DigestTags_entries_def RegInvImage_entries_def
        deref_update)

section \<open>The heap: each loop rewrites only its result\<close>

lemma range_map_map_option:
  "range_map (\<lambda>k. map_option f (m k)) ks = map (\<lambda>(k, v). (k, f v)) (range_map m ks)"
  by (induction ks) (auto simp: range_map_Cons split: option.splits)

lemma riit_assign_loop:
  "deref h r = Some (RegInvImageTagMap m) \<Longrightarrow>
   fold (\<lambda>tag h. riit_assign r \<lparr>ImageTag.ImageName = i, Tag = tag\<rparr> d h) ts h =
     h[r := RegInvImageTagMap (tag_loop i d ts m)]"
proof (induction ts arbitrary: h m)
  case Nil
  then show ?case by (simp add: tag_loop_def update_same)
next
  case (Cons t ts)
  let ?m = "m(\<lparr>ImageTag.ImageName = i, Tag = t\<rparr> \<mapsto> d)"
  from Cons.prems
  have step: "riit_assign r \<lparr>ImageTag.ImageName = i, Tag = t\<rparr> d h = h[r := RegInvImageTagMap ?m]"
    by (simp add: riit_assign_def)
  from Cons.prems have "deref (h[r := RegInvImageTagMap ?m]) r = Some (RegInvImageTagMap ?m)"
    by (simp add: deref_update)
  from Cons.IH [OF this]
  have "fold (\<lambda>tag h. riit_assign r \<lparr>ImageTag.ImageName = i, Tag = tag\<rparr> d h) ts
          (h[r := RegInvImageTagMap ?m]) =
        h[r := RegInvImageTagMap (tag_loop i d ts ?m)]"
    by (simp only: list_update_overwrite)
  moreover have "tag_loop i d ts ?m = tag_loop i d (t # ts) m"
    by (simp only: tag_loop_def fold_Cons comp_apply)
  ultimately show ?case
    by (simp only: fold_Cons comp_apply step)
qed

lemma heap_tag_loop_eq:
  "deref h r = Some (RegInvImageTagMap m) \<Longrightarrow>
   heap_tag_loop r i d s h = h[r := RegInvImageTagMap (tag_loop i d (tags_of h s) m)]"
  unfolding heap_tag_loop_def by (rule riit_assign_loop)

lemma heap_tag_loops:
  "deref h r = Some (RegInvImageTagMap m) \<Longrightarrow>
   fold (\<lambda>(d, s) h. heap_tag_loop r i d s h) es h =
     h[r := RegInvImageTagMap
             (digest_loop_riit i (map (\<lambda>(d, s). (d, tags_of h s)) es) m)]"
proof (induction es arbitrary: h m)
  case Nil
  then show ?case by (simp add: digest_loop_riit_def update_same)
next
  case (Cons e es)
  obtain d s where e: "e = (d, s)" by (cases e)
  let ?m = "tag_loop i d (tags_of h s) m"
  let ?h = "h[r := RegInvImageTagMap ?m]"
  from Cons.prems have step: "heap_tag_loop r i d s h = ?h"
    by (rule heap_tag_loop_eq)
  from Cons.prems have r: "deref ?h r = Some (RegInvImageTagMap ?m)"
    by (simp add: deref_update)
  from Cons.prems have reads: "tags_of ?h = tags_of h"
    by (rule reads_update_riit)
  from Cons.IH [OF r]
  have "fold (\<lambda>(d, s) h. heap_tag_loop r i d s h) es ?h =
        h[r := RegInvImageTagMap (digest_loop_riit i (map (\<lambda>(d, s). (d, tags_of h s)) es) ?m)]"
    by (simp only: list_update_overwrite reads)
  moreover have "digest_loop_riit i (map (\<lambda>(d, s). (d, tags_of h s)) es) ?m =
                 digest_loop_riit i (map (\<lambda>(d, s). (d, tags_of h s)) (e # es)) m"
    unfolding e by (simp add: digest_loop_riit_def)
  ultimately show ?case
    unfolding e by (simp only: fold_Cons comp_apply case_prod_conv step)
qed

lemma heap_digest_loop_riit_eq:
  assumes "deref h r = Some (RegInvImageTagMap m)"
  shows "heap_digest_loop_riit r i a ds h =
           h[r := RegInvImageTagMap (digest_loop_riit i (range_map (DigestTags_at h a) ds) m)]"
  unfolding heap_digest_loop_riit_def DigestTags_at_def range_map_map_option
  by (rule heap_tag_loops [OF assms])

lemma heap_digest_loops_riit:
  "deref h r = Some (RegInvImageTagMap m) \<Longrightarrow>
   fold (\<lambda>(i, a, ds) h. heap_digest_loop_riit r i a ds h) xs h =
     h[r := RegInvImageTagMap
             (fold (\<lambda>(i, es). digest_loop_riit i es)
                   (map (\<lambda>(i, a, ds). (i, range_map (DigestTags_at h a) ds)) xs) m)]"
proof (induction xs arbitrary: h m)
  case Nil
  then show ?case by (simp add: update_same)
next
  case (Cons x xs)
  obtain i a ds where x: "x = (i, a, ds)" by (cases x)
  let ?m = "digest_loop_riit i (range_map (DigestTags_at h a) ds) m"
  let ?h = "h[r := RegInvImageTagMap ?m]"
  from Cons.prems have step: "heap_digest_loop_riit r i a ds h = ?h"
    by (rule heap_digest_loop_riit_eq)
  from Cons.prems have r: "deref ?h r = Some (RegInvImageTagMap ?m)"
    by (simp add: deref_update)
  have reads: "DigestTags_at ?h = DigestTags_at h"
    unfolding DigestTags_at_def
    by (simp only: reads_update_riit [OF Cons.prems])
  from Cons.IH [OF r]
  have "fold (\<lambda>(i, a, ds) h. heap_digest_loop_riit r i a ds h) xs ?h =
        h[r := RegInvImageTagMap
                (fold (\<lambda>(i, es). digest_loop_riit i es)
                      (map (\<lambda>(i, a, ds). (i, range_map (DigestTags_at h a) ds)) xs) ?m)]"
    by (simp only: list_update_overwrite reads)
  moreover have "fold (\<lambda>(i, es). digest_loop_riit i es)
                      (map (\<lambda>(i, a, ds). (i, range_map (DigestTags_at h a) ds)) xs) ?m =
                 fold (\<lambda>(i, es). digest_loop_riit i es)
                      (map (\<lambda>(i, a, ds). (i, range_map (DigestTags_at h a) ds)) (x # xs)) m"
    unfolding x by simp
  ultimately show ?case
    unfolding x by (simp only: fold_Cons comp_apply case_prod_conv step)
qed

lemma heap_key_loops_riit:
  "deref h r = Some (RegInvImageTagMap m) \<Longrightarrow>
   fold (\<lambda>(k, s) h. heap_tag_loop r (ImageDigest.ImageName k) (Digest k) s h) kes h =
     h[r := RegInvImageTagMap
             (fold (\<lambda>(k, ts). tag_loop (ImageDigest.ImageName k) (Digest k) ts)
                   (map (\<lambda>(k, s). (k, tags_of h s)) kes) m)]"
proof (induction kes arbitrary: h m)
  case Nil
  then show ?case by (simp add: update_same)
next
  case (Cons e kes)
  obtain k s where e: "e = (k, s)" by (cases e)
  let ?m = "tag_loop (ImageDigest.ImageName k) (Digest k) (tags_of h s) m"
  let ?h = "h[r := RegInvImageTagMap ?m]"
  from Cons.prems
  have step: "heap_tag_loop r (ImageDigest.ImageName k) (Digest k) s h = ?h"
    by (rule heap_tag_loop_eq)
  from Cons.prems have r: "deref ?h r = Some (RegInvImageTagMap ?m)"
    by (simp add: deref_update)
  from Cons.prems have reads: "tags_of ?h = tags_of h"
    by (rule reads_update_riit)
  from Cons.IH [OF r]
  have "fold (\<lambda>(k, s) h. heap_tag_loop r (ImageDigest.ImageName k) (Digest k) s h) kes ?h =
        h[r := RegInvImageTagMap
                (fold (\<lambda>(k, ts). tag_loop (ImageDigest.ImageName k) (Digest k) ts)
                      (map (\<lambda>(k, s). (k, tags_of h s)) kes) ?m)]"
    by (simp only: list_update_overwrite reads)
  moreover have "fold (\<lambda>(k, ts). tag_loop (ImageDigest.ImageName k) (Digest k) ts)
                      (map (\<lambda>(k, s). (k, tags_of h s)) kes) ?m =
                 fold (\<lambda>(k, ts). tag_loop (ImageDigest.ImageName k) (Digest k) ts)
                      (map (\<lambda>(k, s). (k, tags_of h s)) (e # kes)) m"
    unfolding e by simp
  ultimately show ?case
    unfolding e by (simp only: fold_Cons comp_apply case_prod_conv step)
qed

section \<open>The heap: the three conversions to \<open>RegInvImageTag\<close>\<close>

lemma append_update_last: "(h @ [x])[length h := y] = h @ [y]"
  by simp

lemma heap_RegInvImage_ToRegInvImageTag_eq:
  "heap_RegInvImage_ToRegInvImageTag io dord ri h =
     (length h, h @ [RegInvImageTagMap (RegInvImage_ToRegInvImageTag io dord (RegInvImage_at h ri))])"
proof -
  let ?h1 = "h @ [RegInvImageTagMap Map.empty]" and ?r = "length h"
  let ?ies = "range_map (RegInvImage_entries h ri) io"
  have r: "deref ?h1 (length h) = Some (RegInvImageTagMap Map.empty)"
    by (simp add: deref_append)
  have at: "DigestTags_at ?h1 = DigestTags_at h"
    unfolding DigestTags_at_def by (simp only: reads_append_riit)
  have "fold (\<lambda>(imageName, digestTags) g.
                heap_digest_loop_riit ?r imageName digestTags (dord imageName) g) ?ies ?h1 =
        fold (\<lambda>(i, a, ds) g. heap_digest_loop_riit ?r i a ds g)
             (map (\<lambda>(i, a). (i, a, dord i)) ?ies) ?h1"
    by (simp add: fold_map comp_def case_prod_unfold)
  also have "\<dots> = ?h1[length h := RegInvImageTagMap
      (fold (\<lambda>(i, es). digest_loop_riit i es)
            (map (\<lambda>(i, a, ds). (i, range_map (DigestTags_at ?h1 a) ds))
                 (map (\<lambda>(i, a). (i, a, dord i)) ?ies)) Map.empty)]"
    by (rule heap_digest_loops_riit [OF r])
  also have "(map (\<lambda>(i, a, ds). (i, range_map (DigestTags_at ?h1 a) ds))
                 (map (\<lambda>(i, a). (i, a, dord i)) ?ies)) =
             map (\<lambda>(i, dt). (i, range_map dt (dord i))) (range_map (RegInvImage_at h ri) io)"
    unfolding RegInvImage_at_def range_map_map_option at
    by (simp add: comp_def case_prod_unfold)
  finally show ?thesis
    unfolding heap_RegInvImage_ToRegInvImageTag_def make_def RegInvImage_ToRegInvImageTag_fold
    by (simp only: prod.case reads_append_riit append_update_last)
qed

lemma heap_Manifest_ToRegInvImageTag_eq:
  "heap_Manifest_ToRegInvImageTag dords m h =
     (length h, h @ [RegInvImageTagMap (Manifest_ToRegInvImageTag dords (Manifest_at h m))])"
proof -
  let ?h1 = "h @ [RegInvImageTagMap Map.empty]" and ?r = "length h"
  let ?imgs = "images_of h (m_Images m)"
  have r: "deref ?h1 (length h) = Some (RegInvImageTagMap Map.empty)"
    by (simp add: deref_append)
  have at: "DigestTags_at ?h1 = DigestTags_at h"
    unfolding DigestTags_at_def by (simp only: reads_append_riit)
  have "fold (\<lambda>(image, ds) g.
                heap_digest_loop_riit ?r (i_ImageName image) (i_Dmap image) ds g)
             (zip ?imgs dords) ?h1 =
        fold (\<lambda>(i, a, ds) g. heap_digest_loop_riit ?r i a ds g)
             (map (\<lambda>(image, ds). (i_ImageName image, i_Dmap image, ds)) (zip ?imgs dords)) ?h1"
    by (simp add: fold_map comp_def case_prod_unfold)
  also have "\<dots> = ?h1[length h := RegInvImageTagMap
      (fold (\<lambda>(i, es). digest_loop_riit i es)
            (map (\<lambda>(i, a, ds). (i, range_map (DigestTags_at ?h1 a) ds))
                 (map (\<lambda>(image, ds). (i_ImageName image, i_Dmap image, ds)) (zip ?imgs dords)))
            Map.empty)]"
    by (rule heap_digest_loops_riit [OF r])
  also have "(map (\<lambda>(i, a, ds). (i, range_map (DigestTags_at ?h1 a) ds))
                 (map (\<lambda>(image, ds). (i_ImageName image, i_Dmap image, ds)) (zip ?imgs dords))) =
             map (\<lambda>(img, ds). (Image.ImageName img, range_map (Dmap img) ds))
                 (zip (Images (Manifest_at h m)) dords)"
    unfolding at by (simp add: Manifest_at_def zip_map1 comp_def case_prod_unfold)
  finally show ?thesis
    unfolding heap_Manifest_ToRegInvImageTag_def make_def Manifest_ToRegInvImageTag_fold
    by (simp only: prod.case reads_append_riit append_update_last)
qed

lemma heap_RegInvImageDigest_ToRegInvImageTag_eq:
  "heap_RegInvImageDigest_ToRegInvImageTag ido riid h =
     (length h, h @ [RegInvImageTagMap
                       (RegInvImageDigest_ToRegInvImageTag ido (RegInvImageDigest_at h riid))])"
proof -
  let ?h1 = "h @ [RegInvImageTagMap Map.empty]" and ?r = "length h"
  let ?kes = "range_map (RegInvImageDigest_entries h riid) ido"
  have r: "deref ?h1 (length h) = Some (RegInvImageTagMap Map.empty)"
    by (simp add: deref_append)
  have "fold (\<lambda>(imageDigest, tagArray) g.
                heap_tag_loop ?r (ImageDigest.ImageName imageDigest) (Digest imageDigest)
                  tagArray g) ?kes ?h1 =
        ?h1[length h := RegInvImageTagMap
              (fold (\<lambda>(k, ts). tag_loop (ImageDigest.ImageName k) (Digest k) ts)
                    (map (\<lambda>(k, s). (k, tags_of ?h1 s)) ?kes) Map.empty)]"
    by (rule heap_key_loops_riit [OF r])
  also have "map (\<lambda>(k, s). (k, tags_of ?h1 s)) ?kes = range_map (RegInvImageDigest_at h riid) ido"
    unfolding RegInvImageDigest_at_def range_map_map_option
    by (simp only: reads_append_riit)
  finally show ?thesis
    unfolding heap_RegInvImageDigest_ToRegInvImageTag_def make_def
      RegInvImageDigest_ToRegInvImageTag_def
    by (simp only: prod.case reads_append_riit append_update_last)
qed

section \<open>The heap: the two conversions to \<open>RegInvImageDigest\<close>\<close>

lemma heap_digest_loop_riid_eq:
  assumes "deref h r = Some (RegInvImageDigestMap m)"
  shows "heap_digest_loop_riid r i a ds h =
           h[r := RegInvImageDigestMap
                    (digest_loop_riid i (range_map (DigestTags_entries h a) ds) m)]"
proof -
  have "deref g r = Some (RegInvImageDigestMap m) \<Longrightarrow>
        fold (\<lambda>(digest, tagArray) g.
                riid_assign r \<lparr>ImageDigest.ImageName = i, Digest = digest\<rparr> tagArray g) es g =
          g[r := RegInvImageDigestMap (digest_loop_riid i es m)]" for es g
  proof (induction es arbitrary: g m)
    case Nil
    then show ?case by (simp add: digest_loop_riid_def update_same)
  next
    case (Cons e es)
    obtain d s where e: "e = (d, s)" by (cases e)
    let ?m = "m(\<lparr>ImageDigest.ImageName = i, Digest = d\<rparr> \<mapsto> s)"
    from Cons.prems
    have step: "riid_assign r \<lparr>ImageDigest.ImageName = i, Digest = d\<rparr> s g =
                g[r := RegInvImageDigestMap ?m]"
      by (simp add: riid_assign_def)
    from Cons.prems have "deref (g[r := RegInvImageDigestMap ?m]) r = Some (RegInvImageDigestMap ?m)"
      by (simp add: deref_update)
    from Cons.IH [OF this]
    have "fold (\<lambda>(digest, tagArray) g.
                  riid_assign r \<lparr>ImageDigest.ImageName = i, Digest = digest\<rparr> tagArray g) es
            (g[r := RegInvImageDigestMap ?m]) =
          g[r := RegInvImageDigestMap (digest_loop_riid i es ?m)]"
      by (simp only: list_update_overwrite)
    moreover have "digest_loop_riid i es ?m = digest_loop_riid i (e # es) m"
      unfolding e by (simp add: digest_loop_riid_def)
    ultimately show ?case
      unfolding e by (simp only: fold_Cons comp_apply case_prod_conv step)
  qed
  from this [OF assms] show ?thesis
    unfolding heap_digest_loop_riid_def .
qed

lemma heap_digest_loops_riid:
  "deref h r = Some (RegInvImageDigestMap m) \<Longrightarrow>
   fold (\<lambda>(i, a, ds) g. heap_digest_loop_riid r i a ds g) xs h =
     h[r := RegInvImageDigestMap
             (fold (\<lambda>(i, es). digest_loop_riid i es)
                   (map (\<lambda>(i, a, ds). (i, range_map (DigestTags_entries h a) ds)) xs) m)]"
proof (induction xs arbitrary: h m)
  case Nil
  then show ?case by (simp add: update_same)
next
  case (Cons x xs)
  obtain i a ds where x: "x = (i, a, ds)" by (cases x)
  let ?m = "digest_loop_riid i (range_map (DigestTags_entries h a) ds) m"
  let ?h = "h[r := RegInvImageDigestMap ?m]"
  from Cons.prems have step: "heap_digest_loop_riid r i a ds h = ?h"
    by (rule heap_digest_loop_riid_eq)
  from Cons.prems have r: "deref ?h r = Some (RegInvImageDigestMap ?m)"
    by (simp add: deref_update)
  from Cons.prems have reads: "DigestTags_entries ?h = DigestTags_entries h"
    by (rule reads_update_riid)
  from Cons.IH [OF r]
  have "fold (\<lambda>(i, a, ds) g. heap_digest_loop_riid r i a ds g) xs ?h =
        h[r := RegInvImageDigestMap
                (fold (\<lambda>(i, es). digest_loop_riid i es)
                      (map (\<lambda>(i, a, ds). (i, range_map (DigestTags_entries h a) ds)) xs) ?m)]"
    by (simp only: list_update_overwrite reads)
  moreover have "fold (\<lambda>(i, es). digest_loop_riid i es)
                      (map (\<lambda>(i, a, ds). (i, range_map (DigestTags_entries h a) ds)) xs) ?m =
                 fold (\<lambda>(i, es). digest_loop_riid i es)
                      (map (\<lambda>(i, a, ds). (i, range_map (DigestTags_entries h a) ds)) (x # xs)) m"
    unfolding x by simp
  ultimately show ?case
    unfolding x by (simp only: fold_Cons comp_apply case_prod_conv step)
qed

text \<open>Reading the tags behind the slice headers commutes with the loops.\<close>

lemma digest_loop_riid_map:
  "(\<lambda>k. map_option f (digest_loop_riid i es m k)) =
     digest_loop_riid i (map (\<lambda>(d, s). (d, f s)) es) (\<lambda>k. map_option f (m k))"
proof (induction es arbitrary: m)
  case Nil
  then show ?case by (simp add: digest_loop_riid_def)
next
  case (Cons e es)
  obtain d s where e: "e = (d, s)" by (cases e)
  let ?k = "\<lparr>ImageDigest.ImageName = i, Digest = d\<rparr>"
  have "(\<lambda>k. map_option f ((m(?k \<mapsto> s)) k)) = (\<lambda>k. map_option f (m k))(?k \<mapsto> f s)"
    by (rule ext) simp
  with Cons.IH [of "m(?k \<mapsto> s)"] show ?case
    unfolding e digest_loop_riid_def by simp
qed

lemma digest_loops_riid_map:
  "(\<lambda>k. map_option f (fold (\<lambda>(i, es). digest_loop_riid i es) xs m k)) =
     fold (\<lambda>(i, es). digest_loop_riid i es)
          (map (\<lambda>(i, es). (i, map (\<lambda>(d, s). (d, f s)) es)) xs) (\<lambda>k. map_option f (m k))"
proof (induction xs arbitrary: m)
  case Nil
  then show ?case by simp
next
  case (Cons x xs)
  obtain i es where x: "x = (i, es)" by (cases x)
  from Cons.IH [of "digest_loop_riid i es m"] show ?case
    unfolding x by (simp add: digest_loop_riid_map [of f i es m, symmetric])
qed

lemma heap_RegInvImage_ToRegInvImageDigest_eq:
  "heap_RegInvImage_ToRegInvImageDigest io dord ri h =
     (length h,
      h @ [RegInvImageDigestMap
             (fold (\<lambda>(i, es). digest_loop_riid i es)
                   (map (\<lambda>(i, a). (i, range_map (DigestTags_entries h a) (dord i)))
                        (range_map (RegInvImage_entries h ri) io)) Map.empty)])"
proof -
  let ?h1 = "h @ [RegInvImageDigestMap Map.empty]" and ?r = "length h"
  let ?ies = "range_map (RegInvImage_entries h ri) io"
  have r: "deref ?h1 ?r = Some (RegInvImageDigestMap Map.empty)"
    by (simp add: deref_append)
  have "fold (\<lambda>(imageName, digestTags) g.
                heap_digest_loop_riid ?r imageName digestTags (dord imageName) g) ?ies ?h1 =
        fold (\<lambda>(i, a, ds) g. heap_digest_loop_riid ?r i a ds g)
             (map (\<lambda>(i, a). (i, a, dord i)) ?ies) ?h1"
    by (simp add: fold_map comp_def case_prod_unfold)
  also have "\<dots> = ?h1[?r := RegInvImageDigestMap
      (fold (\<lambda>(i, es). digest_loop_riid i es)
            (map (\<lambda>(i, a, ds). (i, range_map (DigestTags_entries ?h1 a) ds))
                 (map (\<lambda>(i, a). (i, a, dord i)) ?ies)) Map.empty)]"
    by (rule heap_digest_loops_riid [OF r])
  also have "(map (\<lambda>(i, a, ds). (i, range_map (DigestTags_entries ?h1 a) ds))
                 (map (\<lambda>(i, a). (i, a, dord i)) ?ies)) =
             map (\<lambda>(i, a). (i, range_map (DigestTags_entries h a) (dord i))) ?ies"
    by (simp add: reads_append_riid comp_def case_prod_unfold)
  finally show ?thesis
    unfolding heap_RegInvImage_ToRegInvImageDigest_def make_def
    by (simp only: prod.case reads_append_riid append_update_last)
qed

lemma heap_Manifest_ToRegInvImageDigest_eq:
  "heap_Manifest_ToRegInvImageDigest dords m h =
     (length h,
      h @ [RegInvImageDigestMap
             (fold (\<lambda>(i, es). digest_loop_riid i es)
                   (map (\<lambda>(image, ds).
                           (i_ImageName image, range_map (DigestTags_entries h (i_Dmap image)) ds))
                        (zip (images_of h (m_Images m)) dords)) Map.empty)])"
proof -
  let ?h1 = "h @ [RegInvImageDigestMap Map.empty]" and ?r = "length h"
  let ?imgs = "images_of h (m_Images m)"
  have r: "deref ?h1 ?r = Some (RegInvImageDigestMap Map.empty)"
    by (simp add: deref_append)
  have "fold (\<lambda>(image, ds) g.
                heap_digest_loop_riid ?r (i_ImageName image) (i_Dmap image) ds g)
             (zip ?imgs dords) ?h1 =
        fold (\<lambda>(i, a, ds) g. heap_digest_loop_riid ?r i a ds g)
             (map (\<lambda>(image, ds). (i_ImageName image, i_Dmap image, ds)) (zip ?imgs dords)) ?h1"
    by (simp add: fold_map comp_def case_prod_unfold)
  also have "\<dots> = ?h1[?r := RegInvImageDigestMap
      (fold (\<lambda>(i, es). digest_loop_riid i es)
            (map (\<lambda>(i, a, ds). (i, range_map (DigestTags_entries ?h1 a) ds))
                 (map (\<lambda>(image, ds). (i_ImageName image, i_Dmap image, ds)) (zip ?imgs dords)))
            Map.empty)]"
    by (rule heap_digest_loops_riid [OF r])
  also have "(map (\<lambda>(i, a, ds). (i, range_map (DigestTags_entries ?h1 a) ds))
                 (map (\<lambda>(image, ds). (i_ImageName image, i_Dmap image, ds)) (zip ?imgs dords))) =
             map (\<lambda>(image, ds).
                    (i_ImageName image, range_map (DigestTags_entries h (i_Dmap image)) ds))
                 (zip ?imgs dords)"
    by (simp add: reads_append_riid comp_def case_prod_unfold)
  finally show ?thesis
    unfolding heap_Manifest_ToRegInvImageDigest_def make_def
    by (simp only: prod.case reads_append_riid append_update_last)
qed

section \<open>The heap model computes the conversions of the values\<close>

lemma RegInvImageTag_at_last:
  "RegInvImageTag_at (h @ [RegInvImageTagMap m]) (length h) = m"
  by (simp add: RegInvImageTag_at_def deref_append)

lemma RegInvImageDigest_at_last:
  "RegInvImageDigest_at (h @ [RegInvImageDigestMap m]) (length h) = (\<lambda>k. map_option (tags_of h) (m k))"
  by (simp add: RegInvImageDigest_at_def RegInvImageDigest_entries_def deref_append
      reads_append_riid)

lemma heap_RegInvImage_ToRegInvImageDigest_value:
  "RegInvImageDigest_at (snd (heap_RegInvImage_ToRegInvImageDigest io dord ri h))
       (fst (heap_RegInvImage_ToRegInvImageDigest io dord ri h)) =
     RegInvImage_ToRegInvImageDigest io dord (RegInvImage_at h ri)"
proof -
  have "map (\<lambda>(i, dt). (i, range_map dt (dord i))) (range_map (RegInvImage_at h ri) io) =
        map (\<lambda>(i, es). (i, map (\<lambda>(d, s). (d, tags_of h s)) es))
            (map (\<lambda>(i, a). (i, range_map (DigestTags_entries h a) (dord i)))
                 (range_map (RegInvImage_entries h ri) io))"
    by (simp add: RegInvImage_at_def DigestTags_at_def range_map_map_option comp_def
        case_prod_unfold)
  then show ?thesis
    unfolding heap_RegInvImage_ToRegInvImageDigest_eq fst_conv snd_conv RegInvImageDigest_at_last
      digest_loops_riid_map RegInvImage_ToRegInvImageDigest_fold
    by simp
qed

lemma heap_Manifest_ToRegInvImageDigest_value:
  "RegInvImageDigest_at (snd (heap_Manifest_ToRegInvImageDigest dords m h))
       (fst (heap_Manifest_ToRegInvImageDigest dords m h)) =
     Manifest_ToRegInvImageDigest dords (Manifest_at h m)"
proof -
  have "map (\<lambda>(img, ds). (Image.ImageName img, range_map (Dmap img) ds))
            (zip (Images (Manifest_at h m)) dords) =
        map (\<lambda>(i, es). (i, map (\<lambda>(d, s). (d, tags_of h s)) es))
            (map (\<lambda>(image, ds).
                    (i_ImageName image, range_map (DigestTags_entries h (i_Dmap image)) ds))
                 (zip (images_of h (m_Images m)) dords))"
    by (simp add: Manifest_at_def DigestTags_at_def range_map_map_option zip_map1 comp_def
        case_prod_unfold)
  then show ?thesis
    unfolding heap_Manifest_ToRegInvImageDigest_eq fst_conv snd_conv RegInvImageDigest_at_last
      digest_loops_riid_map Manifest_ToRegInvImageDigest_fold
    by simp
qed

text \<open>The values in the heap are the same once a view has been appended.\<close>

lemma values_append_riit:
  "RegInvImage_at (h @ [RegInvImageTagMap v]) = RegInvImage_at h"
  "RegInvImageDigest_at (h @ [RegInvImageTagMap v]) = RegInvImageDigest_at h"
  "Manifest_at (h @ [RegInvImageTagMap v]) = Manifest_at h"
  unfolding RegInvImage_at_def RegInvImageDigest_at_def Manifest_at_def DigestTags_at_def
  by (simp_all only: reads_append_riit)

lemma values_append_riid:
  "RegInvImage_at (h @ [RegInvImageDigestMap v]) = RegInvImage_at h"
  "Manifest_at (h @ [RegInvImageDigestMap v]) = Manifest_at h"
  unfolding RegInvImage_at_def Manifest_at_def DigestTags_at_def
  by (simp_all only: reads_append_riid)

section \<open>The digest-keyed view of an inventory\<close>

lemma ex_ri_order: "RegInvImage_order ex_ri ex_io ex_dord"
  by (auto simp: RegInvImage_order_def map_order_def ex_ri_def ex_io_def ex_dord_def
      split: if_splits)

lemma ex_m_order: "Manifest_order ex_m ex_dords"
  by (auto simp: Manifest_order_def map_order_def ex_m_def ex_dords_def)

lemma ex_riid_order: "map_order ex_riid ex_ido"
  by (auto simp: map_order_def ex_riid_def ex_ido_def)

text \<open>
  Claim C8. For every \<open>RegInvImage\<close> \<open>ri\<close>, every image name \<open>i\<close> of \<open>ri\<close> and every
  digest \<open>d\<close> of \<open>ri[i]\<close>, the view \<open>ri.ToRegInvImageDigest()\<close> maps the key
  \<open>ImageDigest{i, d}\<close> to exactly the tag sequence \<open>ri[i][d]\<close> (same tags, same
  order), and the view has no other keys. This holds whatever order the two
  \<open>range\<close> loops take.
\<close>

theorem RegInvImage_ToRegInvImageDigest_exact:
  assumes "RegInvImage_order ri io dord"
  shows "(\<forall>i dt d ts. ri i = Some dt \<longrightarrow> dt d = Some ts \<longrightarrow>
            RegInvImage_ToRegInvImageDigest io dord ri
              \<lparr>ImageDigest.ImageName = i, Digest = d\<rparr> = Some ts) \<and>
         (\<forall>k \<in> dom (RegInvImage_ToRegInvImageDigest io dord ri).
            \<exists>dt. ri (ImageDigest.ImageName k) = Some dt \<and> Digest k \<in> dom dt)"
  by (auto simp: RegInvImage_ToRegInvImageDigest_apply [OF assms] split: option.splits)

theorem RegInvImage_ToRegInvImageDigest_exact_witness:
  "RegInvImage_order ex_ri ex_io ex_dord \<and>
   ex_ri ''foo'' = Some [''d1'' \<mapsto> [''v1'', ''v2''], ''d2'' \<mapsto> []] \<and>
   RegInvImage_ToRegInvImageDigest ex_io ex_dord ex_ri
     \<lparr>ImageDigest.ImageName = ''foo'', Digest = ''d1''\<rparr> = Some [''v1'', ''v2''] \<and>
   RegInvImage_ToRegInvImageDigest ex_io ex_dord ex_ri
     \<lparr>ImageDigest.ImageName = ''foo'', Digest = ''d2''\<rparr> = Some [] \<and>
   \<lparr>ImageDigest.ImageName = ''bar'', Digest = ''d3''\<rparr>
     \<in> dom (RegInvImage_ToRegInvImageDigest ex_io ex_dord ex_ri) \<and>
   (\<exists>dt. ex_ri ''bar'' = Some dt \<and> ''d3'' \<in> dom dt)"
proof -
  note exact = RegInvImage_ToRegInvImageDigest_exact [OF ex_ri_order]
  have foo: "ex_ri ''foo'' = Some [''d1'' \<mapsto> [''v1'', ''v2''], ''d2'' \<mapsto> []]"
    by (simp add: ex_ri_def)
  have bar: "ex_ri ''bar'' = Some [''d3'' \<mapsto> [''v1'']]"
    by (simp add: ex_ri_def)
  have d1: "RegInvImage_ToRegInvImageDigest ex_io ex_dord ex_ri
              \<lparr>ImageDigest.ImageName = ''foo'', Digest = ''d1''\<rparr> = Some [''v1'', ''v2'']"
    by (rule exact [THEN conjunct1, rule_format, OF foo]) simp
  have d2: "RegInvImage_ToRegInvImageDigest ex_io ex_dord ex_ri
              \<lparr>ImageDigest.ImageName = ''foo'', Digest = ''d2''\<rparr> = Some []"
    by (rule exact [THEN conjunct1, rule_format, OF foo]) simp
  have "RegInvImage_ToRegInvImageDigest ex_io ex_dord ex_ri
          \<lparr>ImageDigest.ImageName = ''bar'', Digest = ''d3''\<rparr> = Some [''v1'']"
    by (rule exact [THEN conjunct1, rule_format, OF bar]) simp
  then have d3: "\<lparr>ImageDigest.ImageName = ''bar'', Digest = ''d3''\<rparr>
                   \<in> dom (RegInvImage_ToRegInvImageDigest ex_io ex_dord ex_ri)"
    by (rule domI)
  from exact [THEN conjunct2, rule_format, OF d3]
  have src: "\<exists>dt. ex_ri ''bar'' = Some dt \<and> ''d3'' \<in> dom dt"
    by simp
  from ex_ri_order foo d1 d2 d3 src show ?thesis by blast
qed

text \<open>
  Claim C3. For every \<open>RegInvImage\<close> and every \<open>Manifest\<close>, the conversion to
  \<open>RegInvImageDigest\<close> keeps every (image, digest) entry of the source as a key of the
  result, also when its tag sequence is empty: the keys of the result are exactly the
  (image, digest) pairs of the source.
\<close>

theorem ToRegInvImageDigest_keys:
  assumes "RegInvImage_order ri io dord" and "Manifest_order m dords"
  shows "dom (RegInvImage_ToRegInvImageDigest io dord ri) =
           {k. \<exists>dt. ri (ImageDigest.ImageName k) = Some dt \<and> Digest k \<in> dom dt} \<and>
         dom (Manifest_ToRegInvImageDigest dords m) =
           {k. \<exists>img \<in> set (Images m).
                 Image.ImageName img = ImageDigest.ImageName k \<and> Digest k \<in> dom (Dmap img)} \<and>
         (\<forall>i dt d. ri i = Some dt \<longrightarrow> dt d = Some [] \<longrightarrow>
            RegInvImage_ToRegInvImageDigest io dord ri
              \<lparr>ImageDigest.ImageName = i, Digest = d\<rparr> = Some [])"
proof (intro conjI)
  show "dom (RegInvImage_ToRegInvImageDigest io dord ri) =
          {k. \<exists>dt. ri (ImageDigest.ImageName k) = Some dt \<and> Digest k \<in> dom dt}"
    by (auto simp: dom_def RegInvImage_ToRegInvImageDigest_apply [OF assms(1)]
        split: option.splits)
next
  show "dom (Manifest_ToRegInvImageDigest dords m) =
          {k. \<exists>img \<in> set (Images m).
                Image.ImageName img = ImageDigest.ImageName k \<and> Digest k \<in> dom (Dmap img)}"
  proof (rule set_eqI)
    fix k
    have "k \<in> dom (Manifest_ToRegInvImageDigest dords m) \<longleftrightarrow>
          (\<exists>es. (ImageDigest.ImageName k, es)
                   \<in> set (map (\<lambda>(img, ds). (Image.ImageName img, range_map (Dmap img) ds))
                             (zip (Images m) dords)) \<and>
                Digest k \<in> fst ` set es)"
      unfolding Manifest_ToRegInvImageDigest_fold image_loop_riid_dom by simp
    also have "\<dots> \<longleftrightarrow> (\<exists>img ds. (img, ds) \<in> set (zip (Images m) dords) \<and>
          ImageDigest.ImageName k = Image.ImageName img \<and>
          Digest k \<in> fst ` set (range_map (Dmap img) ds))"
      unfolding in_Manifest_entries by blast
    also have "\<dots> \<longleftrightarrow> (\<exists>img \<in> set (Images m).
          Image.ImageName img = ImageDigest.ImageName k \<and> Digest k \<in> dom (Dmap img))"
    proof
      assume "\<exists>img ds. (img, ds) \<in> set (zip (Images m) dords) \<and>
          ImageDigest.ImageName k = Image.ImageName img \<and>
          Digest k \<in> fst ` set (range_map (Dmap img) ds)"
      then obtain img ds where "(img, ds) \<in> set (zip (Images m) dords)"
        and "ImageDigest.ImageName k = Image.ImageName img"
        and "Digest k \<in> fst ` set (range_map (Dmap img) ds)"
        by blast
      moreover from this(1) have "img \<in> set (Images m)" by (rule set_zip_leftD)
      moreover from calculation(3) have "Digest k \<in> dom (Dmap img)"
        by (auto simp: set_range_map)
      ultimately show "\<exists>img \<in> set (Images m).
          Image.ImageName img = ImageDigest.ImageName k \<and> Digest k \<in> dom (Dmap img)"
        by (intro bexI [of _ img]) simp_all
    next
      assume "\<exists>img \<in> set (Images m).
          Image.ImageName img = ImageDigest.ImageName k \<and> Digest k \<in> dom (Dmap img)"
      then obtain img where img: "img \<in> set (Images m)"
        and name: "Image.ImageName img = ImageDigest.ImageName k"
        and d: "Digest k \<in> dom (Dmap img)"
        by blast
      from Manifest_order_entry [OF assms(2) img] obtain ds
        where ds: "(img, ds) \<in> set (zip (Images m) dords)" "map_order (Dmap img) ds"
        by blast
      from d ds(2) have "Digest k \<in> fst ` set (range_map (Dmap img) ds)"
        by (force simp: set_range_map map_order_def)
      with ds(1) name [symmetric] show "\<exists>img ds. (img, ds) \<in> set (zip (Images m) dords) \<and>
          ImageDigest.ImageName k = Image.ImageName img \<and>
          Digest k \<in> fst ` set (range_map (Dmap img) ds)"
        by blast
    qed
    finally show "k \<in> dom (Manifest_ToRegInvImageDigest dords m) \<longleftrightarrow>
          k \<in> {k. \<exists>img \<in> set (Images m).
                Image.ImageName img = ImageDigest.ImageName k \<and> Digest k \<in> dom (Dmap img)}"
      by simp
  qed
next
  show "\<forall>i dt d. ri i = Some dt \<longrightarrow> dt d = Some [] \<longrightarrow>
          RegInvImage_ToRegInvImageDigest io dord ri
            \<lparr>ImageDigest.ImageName = i, Digest = d\<rparr> = Some []"
    by (simp add: RegInvImage_ToRegInvImageDigest_apply [OF assms(1)])
qed

theorem ToRegInvImageDigest_keys_witness:
  "RegInvImage_order ex_ri ex_io ex_dord \<and> Manifest_order ex_m ex_dords \<and>
   \<lparr>ImageDigest.ImageName = ''foo'', Digest = ''d2''\<rparr>
     \<in> dom (RegInvImage_ToRegInvImageDigest ex_io ex_dord ex_ri) \<and>
   \<lparr>ImageDigest.ImageName = ''foo'', Digest = ''d3''\<rparr>
     \<notin> dom (RegInvImage_ToRegInvImageDigest ex_io ex_dord ex_ri) \<and>
   \<lparr>ImageDigest.ImageName = ''foo'', Digest = ''d2''\<rparr>
     \<in> dom (Manifest_ToRegInvImageDigest ex_dords ex_m) \<and>
   \<lparr>ImageDigest.ImageName = ''bar'', Digest = ''d1''\<rparr>
     \<notin> dom (Manifest_ToRegInvImageDigest ex_dords ex_m) \<and>
   ex_ri ''foo'' = Some [''d1'' \<mapsto> [''v1'', ''v2''], ''d2'' \<mapsto> []] \<and>
   RegInvImage_ToRegInvImageDigest ex_io ex_dord ex_ri
     \<lparr>ImageDigest.ImageName = ''foo'', Digest = ''d2''\<rparr> = Some []"
proof -
  note keys = ToRegInvImageDigest_keys [OF ex_ri_order ex_m_order]
  have foo: "ex_ri ''foo'' = Some [''d1'' \<mapsto> [''v1'', ''v2''], ''d2'' \<mapsto> []]"
    by (simp add: ex_ri_def)
  have r1: "\<lparr>ImageDigest.ImageName = ''foo'', Digest = ''d2''\<rparr>
              \<in> dom (RegInvImage_ToRegInvImageDigest ex_io ex_dord ex_ri)"
    unfolding keys [THEN conjunct1] by (simp add: ex_ri_def)
  have r2: "\<lparr>ImageDigest.ImageName = ''foo'', Digest = ''d3''\<rparr>
              \<notin> dom (RegInvImage_ToRegInvImageDigest ex_io ex_dord ex_ri)"
    unfolding keys [THEN conjunct1] by (simp add: ex_ri_def)
  have m1: "\<lparr>ImageDigest.ImageName = ''foo'', Digest = ''d2''\<rparr>
              \<in> dom (Manifest_ToRegInvImageDigest ex_dords ex_m)"
    unfolding keys [THEN conjunct2, THEN conjunct1] by (simp add: ex_m_def)
  have m2: "\<lparr>ImageDigest.ImageName = ''bar'', Digest = ''d1''\<rparr>
              \<notin> dom (Manifest_ToRegInvImageDigest ex_dords ex_m)"
    unfolding keys [THEN conjunct2, THEN conjunct1] by (simp add: ex_m_def)
  have e: "RegInvImage_ToRegInvImageDigest ex_io ex_dord ex_ri
             \<lparr>ImageDigest.ImageName = ''foo'', Digest = ''d2''\<rparr> = Some []"
    by (rule keys [THEN conjunct2, THEN conjunct2, rule_format, OF foo]) simp
  from ex_ri_order ex_m_order r1 r2 m1 m2 foo e show ?thesis by blast
qed

section \<open>The tag-keyed view\<close>

text \<open>
  Claim C9. For every \<open>RegInvImage\<close> and every \<open>RegInvImageDigest\<close>, the tag-keyed
  view has the key (i, t) if and only if tag \<open>t\<close> occurs in the tag sequence of some
  digest of image \<open>i\<close> in the source. A digest whose tag sequence is empty
  contributes no key, and no key of the view resolves to it.
\<close>

theorem ToRegInvImageTag_keys:
  assumes "RegInvImage_order ri io dord" and "map_order riid ido"
  shows "(\<forall>i t. \<lparr>ImageTag.ImageName = i, Tag = t\<rparr> \<in> dom (RegInvImage_ToRegInvImageTag io dord ri)
                \<longleftrightarrow> (\<exists>d. RegInvImage_tagged ri i d t)) \<and>
         (\<forall>i t. \<lparr>ImageTag.ImageName = i, Tag = t\<rparr> \<in> dom (RegInvImageDigest_ToRegInvImageTag ido riid)
                \<longleftrightarrow> (\<exists>d. RegInvImageDigest_tagged riid i d t)) \<and>
         (\<forall>i dt d t. ri i = Some dt \<longrightarrow> dt d = Some [] \<longrightarrow>
                RegInvImage_ToRegInvImageTag io dord ri \<lparr>ImageTag.ImageName = i, Tag = t\<rparr> \<noteq> Some d) \<and>
         (\<forall>i d t. riid \<lparr>ImageDigest.ImageName = i, Digest = d\<rparr> = Some [] \<longrightarrow>
                RegInvImageDigest_ToRegInvImageTag ido riid \<lparr>ImageTag.ImageName = i, Tag = t\<rparr> \<noteq> Some d)"
proof (intro conjI allI impI)
  fix i t
  show "\<lparr>ImageTag.ImageName = i, Tag = t\<rparr> \<in> dom (RegInvImage_ToRegInvImageTag io dord ri)
          \<longleftrightarrow> (\<exists>d. RegInvImage_tagged ri i d t)"
    by (simp add: RegInvImage_ToRegInvImageTag_dom [OF assms(1)])
  show "\<lparr>ImageTag.ImageName = i, Tag = t\<rparr> \<in> dom (RegInvImageDigest_ToRegInvImageTag ido riid)
          \<longleftrightarrow> (\<exists>d. RegInvImageDigest_tagged riid i d t)"
    by (simp add: RegInvImageDigest_ToRegInvImageTag_dom [OF assms(2)])
next
  fix i dt d t
  assume "ri i = Some dt" "dt d = Some []"
  then have "\<not> RegInvImage_tagged ri i d t"
    by (simp add: RegInvImage_tagged_def)
  then show "RegInvImage_ToRegInvImageTag io dord ri \<lparr>ImageTag.ImageName = i, Tag = t\<rparr> \<noteq> Some d"
    using RegInvImage_ToRegInvImageTag_sound [of io dord ri "\<lparr>ImageTag.ImageName = i, Tag = t\<rparr>" d]
    by auto
next
  fix i d t
  assume "riid \<lparr>ImageDigest.ImageName = i, Digest = d\<rparr> = Some []"
  then have "\<not> RegInvImageDigest_tagged riid i d t"
    by (simp add: RegInvImageDigest_tagged_def)
  then show "RegInvImageDigest_ToRegInvImageTag ido riid \<lparr>ImageTag.ImageName = i, Tag = t\<rparr> \<noteq> Some d"
    using RegInvImageDigest_ToRegInvImageTag_sound [of ido riid "\<lparr>ImageTag.ImageName = i, Tag = t\<rparr>" d]
    by auto
qed

theorem ToRegInvImageTag_keys_witness:
  "RegInvImage_order ex_ri ex_io ex_dord \<and> map_order ex_riid ex_ido \<and>
   \<lparr>ImageTag.ImageName = ''foo'', Tag = ''v2''\<rparr> \<in> dom (RegInvImage_ToRegInvImageTag ex_io ex_dord ex_ri) \<and>
   \<lparr>ImageTag.ImageName = ''bar'', Tag = ''v2''\<rparr> \<notin> dom (RegInvImage_ToRegInvImageTag ex_io ex_dord ex_ri) \<and>
   \<lparr>ImageTag.ImageName = ''foo'', Tag = ''v2''\<rparr> \<in> dom (RegInvImageDigest_ToRegInvImageTag ex_ido ex_riid) \<and>
   \<lparr>ImageTag.ImageName = ''bar'', Tag = ''v2''\<rparr> \<notin> dom (RegInvImageDigest_ToRegInvImageTag ex_ido ex_riid) \<and>
   ex_ri ''foo'' = Some [''d1'' \<mapsto> [''v1'', ''v2''], ''d2'' \<mapsto> []] \<and>
   RegInvImage_ToRegInvImageTag ex_io ex_dord ex_ri \<lparr>ImageTag.ImageName = ''foo'', Tag = ''v1''\<rparr> \<noteq> Some ''d2'' \<and>
   ex_riid \<lparr>ImageDigest.ImageName = ''foo'', Digest = ''d2''\<rparr> = Some [] \<and>
   RegInvImageDigest_ToRegInvImageTag ex_ido ex_riid \<lparr>ImageTag.ImageName = ''foo'', Tag = ''v1''\<rparr> \<noteq> Some ''d2''"
proof -
  note keys = ToRegInvImageTag_keys [OF ex_ri_order ex_riid_order]
  have foo: "ex_ri ''foo'' = Some [''d1'' \<mapsto> [''v1'', ''v2''], ''d2'' \<mapsto> []]"
    by (simp add: ex_ri_def)
  have d2: "ex_riid \<lparr>ImageDigest.ImageName = ''foo'', Digest = ''d2''\<rparr> = Some []"
    by (simp add: ex_riid_def)
  have r1: "\<lparr>ImageTag.ImageName = ''foo'', Tag = ''v2''\<rparr>
              \<in> dom (RegInvImage_ToRegInvImageTag ex_io ex_dord ex_ri)"
    unfolding keys [THEN conjunct1, rule_format]
    by (rule exI [of _ "''d1''"]) (simp add: RegInvImage_tagged_def ex_ri_def)
  have r2: "\<lparr>ImageTag.ImageName = ''bar'', Tag = ''v2''\<rparr>
              \<notin> dom (RegInvImage_ToRegInvImageTag ex_io ex_dord ex_ri)"
    unfolding keys [THEN conjunct1, rule_format]
    by (simp add: RegInvImage_tagged_def ex_ri_def split: option.splits)
  have k1: "\<lparr>ImageTag.ImageName = ''foo'', Tag = ''v2''\<rparr>
              \<in> dom (RegInvImageDigest_ToRegInvImageTag ex_ido ex_riid)"
    unfolding keys [THEN conjunct2, THEN conjunct1, rule_format]
    by (rule exI [of _ "''d1''"]) (simp add: RegInvImageDigest_tagged_def ex_riid_def)
  have k2: "\<lparr>ImageTag.ImageName = ''bar'', Tag = ''v2''\<rparr>
              \<notin> dom (RegInvImageDigest_ToRegInvImageTag ex_ido ex_riid)"
    unfolding keys [THEN conjunct2, THEN conjunct1, rule_format]
    by (simp add: RegInvImageDigest_tagged_def ex_riid_def split: option.splits)
  note u1 = keys [THEN conjunct2, THEN conjunct2, THEN conjunct1, rule_format, OF foo,
      of "''d2''" "''v1''"]
  note u2 = keys [THEN conjunct2, THEN conjunct2, THEN conjunct2, rule_format, OF d2,
      of "''v1''"]
  from ex_ri_order ex_riid_order r1 r2 k1 k2 foo d2 u1 u2 show ?thesis by simp
qed

section \<open>Round trip through the digest-keyed view\<close>

lemma cx_ri_order: "RegInvImage_order cx_ri cx_io cx_dord"
  by (auto simp: RegInvImage_order_def map_order_def cx_ri_def cx_io_def cx_dord_def
      split: if_splits)

lemma cx_riid_eval:
  "RegInvImage_ToRegInvImageDigest cx_io cx_dord cx_ri =
     [\<lparr>ImageDigest.ImageName = ''foo'', Digest = ''d1''\<rparr> \<mapsto> [''v1''],
      \<lparr>ImageDigest.ImageName = ''foo'', Digest = ''d2''\<rparr> \<mapsto> [''v1'']]"
  by (simp add: conversion_eval cx_ri_def cx_io_def cx_dord_def)

text \<open>
  Claim C1, as stated, fails: on the malformed inventory \<open>cx_ri\<close> the direct conversion
  can end with tag \<open>v1\<close> on digest \<open>d2\<close> while the conversion through the
  digest-keyed view ends with \<open>v1\<close> on \<open>d1\<close>, because the loops over the maps visit
  the two digests in different orders.
\<close>

theorem roundtrip_counterexample:
  "RegInvImage_order cx_ri cx_io cx_dord \<and>
   map_order (RegInvImage_ToRegInvImageDigest cx_io cx_dord cx_ri) cx_ido \<and>
   RegInvImage_ToRegInvImageTag cx_io cx_dord cx_ri
     \<lparr>ImageTag.ImageName = ''foo'', Tag = ''v1''\<rparr> = Some ''d2'' \<and>
   RegInvImageDigest_ToRegInvImageTag cx_ido (RegInvImage_ToRegInvImageDigest cx_io cx_dord cx_ri)
     \<lparr>ImageTag.ImageName = ''foo'', Tag = ''v1''\<rparr> = Some ''d1'' \<and>
   RegInvImageDigest_ToRegInvImageTag cx_ido (RegInvImage_ToRegInvImageDigest cx_io cx_dord cx_ri)
     \<noteq> RegInvImage_ToRegInvImageTag cx_io cx_dord cx_ri"
proof -
  have o: "map_order (RegInvImage_ToRegInvImageDigest cx_io cx_dord cx_ri) cx_ido"
    unfolding cx_riid_eval by (auto simp: map_order_def cx_ido_def)
  have direct: "RegInvImage_ToRegInvImageTag cx_io cx_dord cx_ri
      \<lparr>ImageTag.ImageName = ''foo'', Tag = ''v1''\<rparr> = Some ''d2''"
    by (simp add: conversion_eval cx_ri_def cx_io_def cx_dord_def)
  have via: "RegInvImageDigest_ToRegInvImageTag cx_ido
      (RegInvImage_ToRegInvImageDigest cx_io cx_dord cx_ri)
      \<lparr>ImageTag.ImageName = ''foo'', Tag = ''v1''\<rparr> = Some ''d1''"
    unfolding cx_riid_eval by (simp add: conversion_eval cx_ido_def)
  have "RegInvImageDigest_ToRegInvImageTag cx_ido (RegInvImage_ToRegInvImageDigest cx_io cx_dord cx_ri)
          \<noteq> RegInvImage_ToRegInvImageTag cx_io cx_dord cx_ri"
  proof
    assume "RegInvImageDigest_ToRegInvImageTag cx_ido
              (RegInvImage_ToRegInvImageDigest cx_io cx_dord cx_ri) =
            RegInvImage_ToRegInvImageTag cx_io cx_dord cx_ri"
    from fun_cong [OF this, of "\<lparr>ImageTag.ImageName = ''foo'', Tag = ''v1''\<rparr>"]
    show False
      unfolding direct via by simp
  qed
  with cx_ri_order o direct via show ?thesis by (intro conjI)
qed

text \<open>
  Claim C1, amended. For every \<open>RegInvImage\<close> in which no tag of an image is carried
  by two different digests, converting to \<open>RegInvImageDigest\<close> and then to
  \<open>RegInvImageTag\<close> yields the same map as converting directly to \<open>RegInvImageTag\<close>,
  whatever orders the loops of the three conversions take.
\<close>

theorem roundtrip_tag_consistent:
  assumes "RegInvImage_order ri io dord" and "RegInvImage_order ri io' dord'"
    and "map_order (RegInvImage_ToRegInvImageDigest io dord ri) ido"
    and "tag_consistent ri"
  shows "RegInvImageDigest_ToRegInvImageTag ido (RegInvImage_ToRegInvImageDigest io dord ri) =
         RegInvImage_ToRegInvImageTag io' dord' ri"
proof (rule ext)
  fix it :: ImageTag
  let ?riid = "RegInvImage_ToRegInvImageDigest io dord ri"
  let ?i = "ImageTag.ImageName it" and ?t = "Tag it"
  show "RegInvImageDigest_ToRegInvImageTag ido ?riid it = RegInvImage_ToRegInvImageTag io' dord' ri it"
  proof (cases "RegInvImage_ToRegInvImageTag io' dord' ri it")
    case None
    then have "it \<notin> dom (RegInvImage_ToRegInvImageTag io' dord' ri)" by (simp add: domIff)
    then have "\<not> (\<exists>d. RegInvImage_tagged ri ?i d ?t)"
      by (simp add: RegInvImage_ToRegInvImageTag_dom [OF assms(2)])
    then have "it \<notin> dom (RegInvImageDigest_ToRegInvImageTag ido ?riid)"
      by (simp add: RegInvImageDigest_ToRegInvImageTag_dom [OF assms(3)]
          RegInvImageDigest_tagged_view [OF assms(1)])
    with None show ?thesis by (simp add: domIff)
  next
    case (Some d)
    then have d: "RegInvImage_tagged ri ?i d ?t"
      by (rule RegInvImage_ToRegInvImageTag_sound)
    then have "it \<in> dom (RegInvImageDigest_ToRegInvImageTag ido ?riid)"
      unfolding RegInvImageDigest_ToRegInvImageTag_dom [OF assms(3)]
        RegInvImageDigest_tagged_view [OF assms(1)]
      by blast
    then obtain d' where d': "RegInvImageDigest_ToRegInvImageTag ido ?riid it = Some d'"
      by blast
    then have "RegInvImage_tagged ri ?i d' ?t"
      using RegInvImageDigest_ToRegInvImageTag_sound [OF d']
      by (simp add: RegInvImageDigest_tagged_view [OF assms(1)])
    with d assms(4) have "d' = d"
      unfolding tag_consistent_def by blast
    with d' Some show ?thesis by simp
  qed
qed

lemma ex_ri_order': "RegInvImage_order ex_ri ex_io' ex_dord'"
  by (auto simp: RegInvImage_order_def map_order_def ex_ri_def ex_io'_def ex_dord'_def
      split: if_splits)

lemma ex_ri_view_order:
  "map_order (RegInvImage_ToRegInvImageDigest ex_io ex_dord ex_ri) ex_ido"
  by (auto simp: conversion_eval map_order_def ex_ri_def ex_io_def ex_dord_def ex_ido_def)

lemma ex_ri_consistent: "tag_consistent ex_ri"
  by (auto simp: tag_consistent_def RegInvImage_tagged_def ex_ri_def
      split: option.splits if_splits)

theorem roundtrip_tag_consistent_witness:
  "RegInvImage_order ex_ri ex_io ex_dord \<and> RegInvImage_order ex_ri ex_io' ex_dord' \<and>
   map_order (RegInvImage_ToRegInvImageDigest ex_io ex_dord ex_ri) ex_ido \<and>
   tag_consistent ex_ri \<and>
   RegInvImageDigest_ToRegInvImageTag ex_ido (RegInvImage_ToRegInvImageDigest ex_io ex_dord ex_ri) =
     RegInvImage_ToRegInvImageTag ex_io' ex_dord' ex_ri"
  using roundtrip_tag_consistent [OF ex_ri_order ex_ri_order' ex_ri_view_order ex_ri_consistent]
    ex_ri_order ex_ri_order' ex_ri_view_order ex_ri_consistent
  by (intro conjI)

section \<open>A tag claimed by two digests\<close>

lemma cx_m_order: "Manifest_order cx_m cx_dords"
  by (auto simp: Manifest_order_def map_order_def cx_m_def cx_dords_def)

text \<open>
  Claim C2, as stated, fails: none of the conversions has an error result. On the
  malformed inventory \<open>cx_ri\<close>, and on the manifest \<open>cx_m\<close> with the same content, tag
  \<open>v1\<close> of image \<open>foo\<close> is claimed by digests \<open>d1\<close> and \<open>d2\<close>; the conversion returns
  an ordinary map in which the claim of \<open>d1\<close> has been overwritten by \<open>d2\<close>.
\<close>

theorem ToRegInvImageTag_overwrite_counterexample:
  "RegInvImage_order cx_ri cx_io cx_dord \<and>
   RegInvImage_tagged cx_ri ''foo'' ''d1'' ''v1'' \<and>
   RegInvImage_tagged cx_ri ''foo'' ''d2'' ''v1'' \<and>
   RegInvImage_ToRegInvImageTag cx_io cx_dord cx_ri =
     [\<lparr>ImageTag.ImageName = ''foo'', Tag = ''v1''\<rparr> \<mapsto> ''d2''] \<and>
   Manifest_order cx_m cx_dords \<and>
   Manifest_tagged cx_m ''foo'' ''d1'' ''v1'' \<and>
   Manifest_tagged cx_m ''foo'' ''d2'' ''v1'' \<and>
   Manifest_ToRegInvImageTag cx_dords cx_m =
     [\<lparr>ImageTag.ImageName = ''foo'', Tag = ''v1''\<rparr> \<mapsto> ''d2'']"
proof (intro conjI)
  show "RegInvImage_order cx_ri cx_io cx_dord" by (rule cx_ri_order)
  show "Manifest_order cx_m cx_dords" by (rule cx_m_order)
  show "RegInvImage_tagged cx_ri ''foo'' ''d1'' ''v1''"
    by (simp add: RegInvImage_tagged_def cx_ri_def)
  show "RegInvImage_tagged cx_ri ''foo'' ''d2'' ''v1''"
    by (simp add: RegInvImage_tagged_def cx_ri_def)
  show "Manifest_tagged cx_m ''foo'' ''d1'' ''v1''"
    by (simp add: Manifest_tagged_def cx_m_def)
  show "Manifest_tagged cx_m ''foo'' ''d2'' ''v1''"
    by (simp add: Manifest_tagged_def cx_m_def)
  show "RegInvImage_ToRegInvImageTag cx_io cx_dord cx_ri =
          [\<lparr>ImageTag.ImageName = ''foo'', Tag = ''v1''\<rparr> \<mapsto> ''d2'']"
    by (simp add: conversion_eval cx_ri_def cx_io_def cx_dord_def)
  show "Manifest_ToRegInvImageTag cx_dords cx_m =
          [\<lparr>ImageTag.ImageName = ''foo'', Tag = ''v1''\<rparr> \<mapsto> ''d2'']"
    by (simp add: conversion_eval cx_m_def cx_dords_def)
qed

text \<open>
  Claim C2, amended. For every \<open>RegInvImage\<close> and every \<open>Manifest\<close>, the conversion to
  \<open>RegInvImageTag\<close> returns a map and raises nothing: every \<open>ImageTag\<close> key (i, t)
  that some digest of the source claims is assigned one of the digests that claim
  it. For a \<open>RegInvImage\<close> it is the digest visited last, among those of image \<open>i\<close>
  that carry \<open>t\<close>, by the loop over the digests of \<open>i\<close>; the digests visited before
  are overwritten.
\<close>

theorem ToRegInvImageTag_last_write_wins:
  assumes "RegInvImage_order ri io dord" and "Manifest_order m dords"
  shows "(\<forall>i d t. RegInvImage_tagged ri i d t \<longrightarrow>
            (\<exists>d'. RegInvImage_ToRegInvImageTag io dord ri \<lparr>ImageTag.ImageName = i, Tag = t\<rparr> = Some d' \<and>
                  RegInvImage_tagged ri i d' t)) \<and>
         (\<forall>i d t. Manifest_tagged m i d t \<longrightarrow>
            (\<exists>d'. Manifest_ToRegInvImageTag dords m \<lparr>ImageTag.ImageName = i, Tag = t\<rparr> = Some d' \<and>
                  Manifest_tagged m i d' t)) \<and>
         (\<forall>i dt t. ri i = Some dt \<longrightarrow>
            RegInvImage_ToRegInvImageTag io dord ri \<lparr>ImageTag.ImageName = i, Tag = t\<rparr> =
              map_option fst (find (\<lambda>(d, ts). t \<in> set ts) (rev (range_map dt (dord i)))))"
proof (intro conjI allI impI)
  fix i d t
  assume "RegInvImage_tagged ri i d t"
  then have "\<lparr>ImageTag.ImageName = i, Tag = t\<rparr> \<in> dom (RegInvImage_ToRegInvImageTag io dord ri)"
    unfolding RegInvImage_ToRegInvImageTag_dom [OF assms(1)] by auto
  then obtain d' where d': "RegInvImage_ToRegInvImageTag io dord ri
      \<lparr>ImageTag.ImageName = i, Tag = t\<rparr> = Some d'"
    by blast
  from RegInvImage_ToRegInvImageTag_sound [OF d'] have "RegInvImage_tagged ri i d' t" by simp
  with d' show "\<exists>d'. RegInvImage_ToRegInvImageTag io dord ri
      \<lparr>ImageTag.ImageName = i, Tag = t\<rparr> = Some d' \<and> RegInvImage_tagged ri i d' t"
    by blast
next
  fix i d t
  assume "Manifest_tagged m i d t"
  then have "\<lparr>ImageTag.ImageName = i, Tag = t\<rparr> \<in> dom (Manifest_ToRegInvImageTag dords m)"
    unfolding Manifest_ToRegInvImageTag_dom [OF assms(2)] by auto
  then obtain d' where d': "Manifest_ToRegInvImageTag dords m
      \<lparr>ImageTag.ImageName = i, Tag = t\<rparr> = Some d'"
    by blast
  from Manifest_ToRegInvImageTag_sound [OF d'] have "Manifest_tagged m i d' t" by simp
  with d' show "\<exists>d'. Manifest_ToRegInvImageTag dords m
      \<lparr>ImageTag.ImageName = i, Tag = t\<rparr> = Some d' \<and> Manifest_tagged m i d' t"
    by blast
next
  fix i dt t
  assume "ri i = Some dt"
  then show "RegInvImage_ToRegInvImageTag io dord ri \<lparr>ImageTag.ImageName = i, Tag = t\<rparr> =
      map_option fst (find (\<lambda>(d, ts). t \<in> set ts) (rev (range_map dt (dord i))))"
    by (simp add: RegInvImage_ToRegInvImageTag_apply [OF assms(1)])
qed

theorem ToRegInvImageTag_last_write_wins_witness:
  "RegInvImage_order cx_ri cx_io cx_dord' \<and> Manifest_order cx_m cx_dords \<and>
   RegInvImage_tagged cx_ri ''foo'' ''d2'' ''v1'' \<and>
   RegInvImage_ToRegInvImageTag cx_io cx_dord' cx_ri
     \<lparr>ImageTag.ImageName = ''foo'', Tag = ''v1''\<rparr> = Some ''d1'' \<and>
   RegInvImage_tagged cx_ri ''foo'' ''d1'' ''v1'' \<and>
   Manifest_tagged cx_m ''foo'' ''d1'' ''v1'' \<and>
   (\<exists>d'. Manifest_ToRegInvImageTag cx_dords cx_m
           \<lparr>ImageTag.ImageName = ''foo'', Tag = ''v1''\<rparr> = Some d' \<and>
         Manifest_tagged cx_m ''foo'' d' ''v1'') \<and>
   cx_ri ''foo'' = Some [''d1'' \<mapsto> [''v1''], ''d2'' \<mapsto> [''v1'']]"
proof -
  have o: "RegInvImage_order cx_ri cx_io cx_dord'"
    by (auto simp: RegInvImage_order_def map_order_def cx_ri_def cx_io_def cx_dord'_def
        split: if_splits)
  note wins = ToRegInvImageTag_last_write_wins [OF o cx_m_order]
  have foo: "cx_ri ''foo'' = Some [''d1'' \<mapsto> [''v1''], ''d2'' \<mapsto> [''v1'']]"
    by (simp add: cx_ri_def)
  have t1: "RegInvImage_tagged cx_ri ''foo'' ''d1'' ''v1''"
    and t2: "RegInvImage_tagged cx_ri ''foo'' ''d2'' ''v1''"
    by (simp_all add: RegInvImage_tagged_def cx_ri_def)
  have m1: "Manifest_tagged cx_m ''foo'' ''d1'' ''v1''"
    by (simp add: Manifest_tagged_def cx_m_def)
  have last: "RegInvImage_ToRegInvImageTag cx_io cx_dord' cx_ri
      \<lparr>ImageTag.ImageName = ''foo'', Tag = ''v1''\<rparr> = Some ''d1''"
    unfolding wins [THEN conjunct2, THEN conjunct2, rule_format, OF foo]
    by (simp add: range_map_def map_filter_simps cx_dord'_def)
  note m = wins [THEN conjunct2, THEN conjunct1, rule_format, OF m1]
  from o cx_m_order t2 last t1 m1 m foo show ?thesis by (intro conjI)
qed

section \<open>What the views keep of the inventory\<close>

text \<open>
  Claim C4, as stated, fails: the conversions are not injective. The empty inventory
  and the inventory \<open>empty_image_ri\<close>, which has image \<open>foo\<close> without any digest, are
  different and have the same digest-keyed view and the same tag-keyed view. The
  inventories \<open>untagged_d1_ri\<close> and \<open>untagged_d2_ri\<close>, each with one untagged digest,
  are different and have the same tag-keyed view.
\<close>

theorem lossless_counterexample:
  "Map.empty \<noteq> empty_image_ri \<and>
   RegInvImage_order Map.empty [] no_dord \<and>
   RegInvImage_order empty_image_ri [''foo''] no_dord \<and>
   RegInvImage_ToRegInvImageDigest [] no_dord Map.empty =
     RegInvImage_ToRegInvImageDigest [''foo''] no_dord empty_image_ri \<and>
   RegInvImage_ToRegInvImageTag [] no_dord Map.empty =
     RegInvImage_ToRegInvImageTag [''foo''] no_dord empty_image_ri \<and>
   untagged_d1_ri \<noteq> untagged_d2_ri \<and>
   RegInvImage_order untagged_d1_ri [''foo''] d1_dord \<and>
   RegInvImage_order untagged_d2_ri [''foo''] d2_dord \<and>
   RegInvImage_ToRegInvImageTag [''foo''] d1_dord untagged_d1_ri =
     RegInvImage_ToRegInvImageTag [''foo''] d2_dord untagged_d2_ri"
proof (intro conjI)
  show "Map.empty \<noteq> empty_image_ri"
  proof
    assume "Map.empty = empty_image_ri"
    then have "empty_image_ri ''foo'' = None" by (rule fun_cong [symmetric])
    then show False by (simp add: empty_image_ri_def)
  qed
  show "RegInvImage_order Map.empty [] no_dord"
    by (simp add: RegInvImage_order_def map_order_def)
  show "RegInvImage_order empty_image_ri [''foo''] no_dord"
    by (auto simp: RegInvImage_order_def map_order_def empty_image_ri_def no_dord_def
        split: if_splits)
  show "RegInvImage_ToRegInvImageDigest [] no_dord Map.empty =
          RegInvImage_ToRegInvImageDigest [''foo''] no_dord empty_image_ri"
    by (simp add: conversion_eval empty_image_ri_def no_dord_def)
  show "RegInvImage_ToRegInvImageTag [] no_dord Map.empty =
          RegInvImage_ToRegInvImageTag [''foo''] no_dord empty_image_ri"
    by (simp add: conversion_eval empty_image_ri_def no_dord_def)
  show "untagged_d1_ri \<noteq> untagged_d2_ri"
  proof
    assume "untagged_d1_ri = untagged_d2_ri"
    then have "untagged_d1_ri ''foo'' = untagged_d2_ri ''foo''" by simp
    then have "[''d1'' \<mapsto> []] ''d1'' = ([''d2'' \<mapsto> []] :: DigestTags) ''d1''"
      by (simp add: untagged_d1_ri_def untagged_d2_ri_def)
    then show False by simp
  qed
  show "RegInvImage_order untagged_d1_ri [''foo''] d1_dord"
    by (auto simp: RegInvImage_order_def map_order_def untagged_d1_ri_def d1_dord_def
        split: if_splits)
  show "RegInvImage_order untagged_d2_ri [''foo''] d2_dord"
    by (auto simp: RegInvImage_order_def map_order_def untagged_d2_ri_def d2_dord_def
        split: if_splits)
  show "RegInvImage_ToRegInvImageTag [''foo''] d1_dord untagged_d1_ri =
          RegInvImage_ToRegInvImageTag [''foo''] d2_dord untagged_d2_ri"
    by (simp add: conversion_eval untagged_d1_ri_def untagged_d2_ri_def d1_dord_def d2_dord_def)
qed

text \<open>
  Claim C4, amended. The conversion \<open>RegInvImage.ToRegInvImageDigest\<close> is injective on
  the inventories in which every image has at least one digest: two such
  inventories with equal digest-keyed views are equal, untagged digests included.
  (An image without digests leaves no trace in either view, and the tag-keyed view
  drops untagged digests, so nothing of the kind holds for \<open>ToRegInvImageTag\<close>.)
\<close>

theorem RegInvImage_ToRegInvImageDigest_inj:
  assumes "RegInvImage_order ri1 io1 dord1" and "RegInvImage_order ri2 io2 dord2"
    and "nonempty_images ri1" and "nonempty_images ri2"
    and "RegInvImage_ToRegInvImageDigest io1 dord1 ri1 =
         RegInvImage_ToRegInvImageDigest io2 dord2 ri2"
  shows "ri1 = ri2"
proof (rule ext)
  fix i
  have view: "(case ri1 i of None \<Rightarrow> None | Some dt \<Rightarrow> dt d) =
              (case ri2 i of None \<Rightarrow> None | Some dt \<Rightarrow> dt d)" for d
    using fun_cong [OF assms(5), of "\<lparr>ImageDigest.ImageName = i, Digest = d\<rparr>"]
    by (simp add: RegInvImage_ToRegInvImageDigest_apply [OF assms(1)]
        RegInvImage_ToRegInvImageDigest_apply [OF assms(2)] cong: option.case_cong)
  show "ri1 i = ri2 i"
  proof (cases "ri1 i")
    case None
    show ?thesis
    proof (cases "ri2 i")
      case (Some dt2)
      with assms(4) have "dt2 \<noteq> Map.empty" by (auto simp: nonempty_images_def)
      then obtain d where "dt2 d \<noteq> None" by fastforce
      with view [of d] None Some show ?thesis by simp
    qed (simp add: None)
  next
    case (Some dt1)
    with assms(3) have "dt1 \<noteq> Map.empty" by (auto simp: nonempty_images_def)
    then obtain d where d: "dt1 d \<noteq> None" by fastforce
    show ?thesis
    proof (cases "ri2 i")
      case None
      with view [of d] Some d show ?thesis by simp
    next
      case dt2: (Some dt2)
      from view Some dt2 have "dt1 d' = dt2 d'" for d' by simp
      then have "dt1 = dt2" by (rule ext)
      with Some dt2 show ?thesis by simp
    qed
  qed
qed

theorem RegInvImage_ToRegInvImageDigest_inj_witness:
  "RegInvImage_order ex_ri ex_io ex_dord \<and> RegInvImage_order ex_ri' ex_io' ex_dord' \<and>
   nonempty_images ex_ri \<and> nonempty_images ex_ri' \<and>
   RegInvImage_ToRegInvImageDigest ex_io ex_dord ex_ri =
     RegInvImage_ToRegInvImageDigest ex_io' ex_dord' ex_ri' \<and>
   ex_ri = ex_ri'"
proof -
  have o: "RegInvImage_order ex_ri' ex_io' ex_dord'"
    by (auto simp: RegInvImage_order_def map_order_def ex_ri'_def ex_io'_def ex_dord'_def
        split: if_splits)
  have ne: "nonempty_images ex_ri"
    unfolding nonempty_images_def ex_ri_def
    by (auto split: if_splits dest: fun_cong [of _ _ "''d1''"] fun_cong [of _ _ "''d3''"])
  have ne': "nonempty_images ex_ri'"
    unfolding nonempty_images_def ex_ri'_def
    by (auto split: if_splits dest: fun_cong [of _ _ "''d1''"] fun_cong [of _ _ "''d3''"])
  have eq: "RegInvImage_ToRegInvImageDigest ex_io ex_dord ex_ri =
            RegInvImage_ToRegInvImageDigest ex_io' ex_dord' ex_ri'"
  proof (rule ext)
    fix k
    show "RegInvImage_ToRegInvImageDigest ex_io ex_dord ex_ri k =
          RegInvImage_ToRegInvImageDigest ex_io' ex_dord' ex_ri' k"
      unfolding RegInvImage_ToRegInvImageDigest_apply [OF ex_ri_order]
        RegInvImage_ToRegInvImageDigest_apply [OF o]
      by (simp add: ex_ri_def ex_ri'_def)
  qed
  from RegInvImage_ToRegInvImageDigest_inj [OF ex_ri_order o ne ne' eq]
    ex_ri_order o ne ne' eq
  show ?thesis by (intro conjI)
qed

section \<open>Manifest and inventory\<close>

lemma cx_m_inventory: "Manifest_RegInvImage cx_m = cx_ri"
  by (simp add: Manifest_RegInvImage_def cx_m_def cx_ri_def)

lemma cx_ri_order': "RegInvImage_order cx_ri cx_io cx_dord'"
  by (auto simp: RegInvImage_order_def map_order_def cx_ri_def cx_io_def cx_dord'_def
      split: if_splits)

text \<open>
  Claim C5, as stated, fails for the tag-keyed view: the manifest \<open>cx_m\<close> has a single
  entry, whose \<open>Dmap\<close> gives tag \<open>v1\<close> to two digests. Converting the manifest can
  end with \<open>v1\<close> on \<open>d2\<close> while converting the inventory it describes ends with \<open>v1\<close>
  on \<open>d1\<close>, the two loops over the same \<open>Dmap\<close> taking different orders.
\<close>

theorem Manifest_as_inventory_counterexample:
  "distinct (map Image.ImageName (Images cx_m)) \<and>
   Manifest_order cx_m cx_dords \<and>
   RegInvImage_order (Manifest_RegInvImage cx_m) cx_io cx_dord' \<and>
   Manifest_ToRegInvImageTag cx_dords cx_m
     \<lparr>ImageTag.ImageName = ''foo'', Tag = ''v1''\<rparr> = Some ''d2'' \<and>
   RegInvImage_ToRegInvImageTag cx_io cx_dord' (Manifest_RegInvImage cx_m)
     \<lparr>ImageTag.ImageName = ''foo'', Tag = ''v1''\<rparr> = Some ''d1'' \<and>
   Manifest_ToRegInvImageTag cx_dords cx_m \<noteq>
     RegInvImage_ToRegInvImageTag cx_io cx_dord' (Manifest_RegInvImage cx_m)"
proof -
  have names: "distinct (map Image.ImageName (Images cx_m))"
    by (simp add: cx_m_def)
  have o: "RegInvImage_order (Manifest_RegInvImage cx_m) cx_io cx_dord'"
    unfolding cx_m_inventory by (rule cx_ri_order')
  have man: "Manifest_ToRegInvImageTag cx_dords cx_m
      \<lparr>ImageTag.ImageName = ''foo'', Tag = ''v1''\<rparr> = Some ''d2''"
    by (simp add: conversion_eval cx_m_def cx_dords_def)
  have inv: "RegInvImage_ToRegInvImageTag cx_io cx_dord' (Manifest_RegInvImage cx_m)
      \<lparr>ImageTag.ImageName = ''foo'', Tag = ''v1''\<rparr> = Some ''d1''"
    unfolding cx_m_inventory by (simp add: conversion_eval cx_ri_def cx_io_def cx_dord'_def)
  have "Manifest_ToRegInvImageTag cx_dords cx_m \<noteq>
          RegInvImage_ToRegInvImageTag cx_io cx_dord' (Manifest_RegInvImage cx_m)"
  proof
    assume "Manifest_ToRegInvImageTag cx_dords cx_m =
            RegInvImage_ToRegInvImageTag cx_io cx_dord' (Manifest_RegInvImage cx_m)"
    from fun_cong [OF this, of "\<lparr>ImageTag.ImageName = ''foo'', Tag = ''v1''\<rparr>"]
    show False
      unfolding man inv by simp
  qed
  with names cx_m_order o man inv show ?thesis by (intro conjI)
qed

text \<open>
  Claim C5, amended. For every \<open>Manifest\<close> whose entries have pairwise distinct names,
  let \<open>ri\<close> be the \<open>RegInvImage\<close> that maps each entry's \<open>ImageName\<close> to its \<open>Dmap\<close>.
  Converting the manifest to \<open>RegInvImageDigest\<close> yields the same map as converting
  \<open>ri\<close>, whatever the iteration orders. Converting the manifest to \<open>RegInvImageTag\<close>
  yields the same map as converting \<open>ri\<close> when no tag of an image is carried by two
  different digests, and also whenever the two conversions visit the digests of
  each image in the same order.
\<close>

theorem Manifest_as_inventory:
  assumes "distinct (map Image.ImageName (Images m))"
    and "Manifest_order m dords"
    and "RegInvImage_order (Manifest_RegInvImage m) io dord"
  shows "Manifest_ToRegInvImageDigest dords m =
           RegInvImage_ToRegInvImageDigest io dord (Manifest_RegInvImage m) \<and>
         (tag_consistent (Manifest_RegInvImage m) \<longrightarrow>
            Manifest_ToRegInvImageTag dords m =
              RegInvImage_ToRegInvImageTag io dord (Manifest_RegInvImage m)) \<and>
         ((\<forall>(image, ds) \<in> set (zip (Images m) dords). dord (Image.ImageName image) = ds) \<longrightarrow>
            Manifest_ToRegInvImageTag dords m =
              RegInvImage_ToRegInvImageTag io dord (Manifest_RegInvImage m))"
proof (intro conjI impI)
  show "Manifest_ToRegInvImageDigest dords m =
          RegInvImage_ToRegInvImageDigest io dord (Manifest_RegInvImage m)"
    by (rule ext)
       (simp only: Manifest_ToRegInvImageDigest_apply [OF assms(1,2)]
          RegInvImage_ToRegInvImageDigest_apply [OF assms(3)])
next
  assume cons: "tag_consistent (Manifest_RegInvImage m)"
  show "Manifest_ToRegInvImageTag dords m =
          RegInvImage_ToRegInvImageTag io dord (Manifest_RegInvImage m)"
  proof (rule ext)
    fix it :: ImageTag
    let ?i = "ImageTag.ImageName it" and ?t = "Tag it"
    let ?ri = "Manifest_RegInvImage m"
    show "Manifest_ToRegInvImageTag dords m it = RegInvImage_ToRegInvImageTag io dord ?ri it"
    proof (cases "RegInvImage_ToRegInvImageTag io dord ?ri it")
      case None
      then have "it \<notin> dom (RegInvImage_ToRegInvImageTag io dord ?ri)" by (simp add: domIff)
      then have "\<not> (\<exists>d. RegInvImage_tagged ?ri ?i d ?t)"
        by (simp add: RegInvImage_ToRegInvImageTag_dom [OF assms(3)])
      then have "it \<notin> dom (Manifest_ToRegInvImageTag dords m)"
        by (simp add: Manifest_ToRegInvImageTag_dom [OF assms(2)]
            Manifest_tagged_RegInvImage [OF assms(1)])
      with None show ?thesis by (simp add: domIff)
    next
      case (Some d)
      then have d: "RegInvImage_tagged ?ri ?i d ?t"
        by (rule RegInvImage_ToRegInvImageTag_sound)
      then have "it \<in> dom (Manifest_ToRegInvImageTag dords m)"
        unfolding Manifest_ToRegInvImageTag_dom [OF assms(2)]
          Manifest_tagged_RegInvImage [OF assms(1)]
        by blast
      then obtain d' where d': "Manifest_ToRegInvImageTag dords m it = Some d'"
        by blast
      then have "RegInvImage_tagged ?ri ?i d' ?t"
        using Manifest_ToRegInvImageTag_sound [OF d']
        by (simp add: Manifest_tagged_RegInvImage [OF assms(1)])
      with d cons have "d' = d"
        unfolding tag_consistent_def by blast
      with d' Some show ?thesis by simp
    qed
  qed
next
  assume same: "\<forall>(image, ds) \<in> set (zip (Images m) dords). dord (Image.ImageName image) = ds"
  from assms(2) have len: "length (Images m) = length dords"
    by (simp add: Manifest_order_def)
  show "Manifest_ToRegInvImageTag dords m =
          RegInvImage_ToRegInvImageTag io dord (Manifest_RegInvImage m)"
  proof (rule ext)
    fix it :: ImageTag
    let ?i = "ImageTag.ImageName it"
    let ?ies = "map (\<lambda>(img, ds). (Image.ImageName img, range_map (Dmap img) ds))
                  (zip (Images m) dords)"
    show "Manifest_ToRegInvImageTag dords m it =
          RegInvImage_ToRegInvImageTag io dord (Manifest_RegInvImage m) it"
    proof (cases "map_of ?ies ?i")
      case None
      with map_of_Manifest_entries_None [OF len, of ?i]
      have "Manifest_RegInvImage m ?i = None"
        by (simp add: Manifest_RegInvImage_def)
      with None show ?thesis
        by (simp add: Manifest_ToRegInvImageTag_apply [OF assms(1,2)]
            RegInvImage_ToRegInvImageTag_apply [OF assms(3)])
    next
      case (Some es)
      from map_of_Manifest_entries [OF len Some] obtain img ds
        where e: "(img, ds) \<in> set (zip (Images m) dords)" "Image.ImageName img = ?i"
          "es = range_map (Dmap img) ds" "Manifest_RegInvImage m ?i = Some (Dmap img)"
        unfolding Manifest_RegInvImage_def by blast
      from same e(1,2) have "dord ?i = ds" by auto
      with Some e(3,4) show ?thesis
        by (simp add: Manifest_ToRegInvImageTag_apply [OF assms(1,2)]
            RegInvImage_ToRegInvImageTag_apply [OF assms(3)])
    qed
  qed
qed

theorem Manifest_as_inventory_witness:
  "distinct (map Image.ImageName (Images ex_m)) \<and>
   Manifest_order ex_m ex_dords \<and>
   RegInvImage_order (Manifest_RegInvImage ex_m) ex_io' ex_dord' \<and>
   Manifest_ToRegInvImageDigest ex_dords ex_m =
     RegInvImage_ToRegInvImageDigest ex_io' ex_dord' (Manifest_RegInvImage ex_m) \<and>
   tag_consistent (Manifest_RegInvImage ex_m) \<and>
   Manifest_ToRegInvImageTag ex_dords ex_m =
     RegInvImage_ToRegInvImageTag ex_io' ex_dord' (Manifest_RegInvImage ex_m) \<and>
   RegInvImage_order (Manifest_RegInvImage ex_m) ex_io ex_dord \<and>
   ex_dord ''foo'' = [''d2'', ''d1''] \<and> ex_dord ''bar'' = [''d3''] \<and>
   Manifest_ToRegInvImageTag ex_dords ex_m =
     RegInvImage_ToRegInvImageTag ex_io ex_dord (Manifest_RegInvImage ex_m)"
proof -
  have names: "distinct (map Image.ImageName (Images ex_m))"
    by (simp add: ex_m_def)
  have inv: "Manifest_RegInvImage ex_m =
      [''bar'' \<mapsto> [''d3'' \<mapsto> [''v1'']], ''foo'' \<mapsto> [''d1'' \<mapsto> [''v1'', ''v2''], ''d2'' \<mapsto> []]]"
    by (simp add: Manifest_RegInvImage_def ex_m_def)
  have o': "RegInvImage_order (Manifest_RegInvImage ex_m) ex_io' ex_dord'"
    unfolding inv
    by (auto simp: RegInvImage_order_def map_order_def ex_io'_def ex_dord'_def split: if_splits)
  have o: "RegInvImage_order (Manifest_RegInvImage ex_m) ex_io ex_dord"
    unfolding inv
    by (auto simp: RegInvImage_order_def map_order_def ex_io_def ex_dord_def split: if_splits)
  have cons: "tag_consistent (Manifest_RegInvImage ex_m)"
    unfolding inv
    by (auto simp: tag_consistent_def RegInvImage_tagged_def split: option.splits if_splits)
  have foo: "ex_dord ''foo'' = [''d2'', ''d1'']" and bar: "ex_dord ''bar'' = [''d3'']"
    by (simp_all add: ex_dord_def)
  have same: "\<forall>(image, ds) \<in> set (zip (Images ex_m) ex_dords). ex_dord (Image.ImageName image) = ds"
    by (simp add: ex_m_def ex_dords_def ex_dord_def)
  note a = Manifest_as_inventory [OF names ex_m_order o']
  note b = Manifest_as_inventory [OF names ex_m_order o]
  from a have digest: "Manifest_ToRegInvImageDigest ex_dords ex_m =
      RegInvImage_ToRegInvImageDigest ex_io' ex_dord' (Manifest_RegInvImage ex_m)"
    by (rule conjunct1)
  from a cons have tag': "Manifest_ToRegInvImageTag ex_dords ex_m =
      RegInvImage_ToRegInvImageTag ex_io' ex_dord' (Manifest_RegInvImage ex_m)"
    by blast
  from b same have tag: "Manifest_ToRegInvImageTag ex_dords ex_m =
      RegInvImage_ToRegInvImageTag ex_io ex_dord (Manifest_RegInvImage ex_m)"
    by blast
  from names ex_m_order o' digest cons tag' o foo bar tag show ?thesis
    by (intro conjI)
qed

text \<open>
  Claim C10, as stated, fails: the manifest \<open>dup_m\<close> lists image \<open>foo\<close> twice, first
  with digest \<open>d1\<close> tagged \<open>v1\<close>, then with \<open>d1\<close> untagged. Its tag-keyed view maps
  (\<open>foo\<close>, \<open>v1\<close>) to \<open>d1\<close>, but its digest-keyed view gives (\<open>foo\<close>, \<open>d1\<close>) the empty tag
  sequence of the second entry.
\<close>

theorem Manifest_views_counterexample:
  "Manifest_order dup_m dup_dords \<and>
   Manifest_ToRegInvImageTag dup_dords dup_m
     \<lparr>ImageTag.ImageName = ''foo'', Tag = ''v1''\<rparr> = Some ''d1'' \<and>
   Manifest_ToRegInvImageDigest dup_dords dup_m
     \<lparr>ImageDigest.ImageName = ''foo'', Digest = ''d1''\<rparr> = Some [] \<and>
   ''v1'' \<notin> set ([] :: TagSlice)"
proof (intro conjI)
  show "Manifest_order dup_m dup_dords"
    by (auto simp: Manifest_order_def map_order_def dup_m_def dup_dords_def)
  show "Manifest_ToRegInvImageTag dup_dords dup_m
      \<lparr>ImageTag.ImageName = ''foo'', Tag = ''v1''\<rparr> = Some ''d1''"
    by (simp add: conversion_eval dup_m_def dup_dords_def)
  show "Manifest_ToRegInvImageDigest dup_dords dup_m
      \<lparr>ImageDigest.ImageName = ''foo'', Digest = ''d1''\<rparr> = Some []"
    by (simp add: conversion_eval dup_m_def dup_dords_def)
  show "''v1'' \<notin> set ([] :: TagSlice)" by simp
qed

text \<open>
  Claim C10, amended. For every \<open>Manifest\<close> in which entries with the same
  \<open>ImageName\<close> that list the same digest give it the same tags (every manifest
  whose entries have pairwise distinct names is one), the two derived views are
  consistent: whenever \<open>m.ToRegInvImageTag()\<close> maps a key \<open>it\<close> to a digest \<open>d\<close>, the
  key \<open>ImageDigest{it.ImageName, d}\<close> is present in \<open>m.ToRegInvImageDigest()\<close> and its
  tag sequence contains \<open>it.Tag\<close>. The two conversions may take different iteration
  orders.
\<close>

theorem Manifest_views_consistent:
  assumes "repeated_digests_agree m"
    and "Manifest_order m dords" and "Manifest_order m dords'"
  shows "\<forall>it d. Manifest_ToRegInvImageTag dords m it = Some d \<longrightarrow>
           (\<exists>ts. Manifest_ToRegInvImageDigest dords' m
                   \<lparr>ImageDigest.ImageName = ImageTag.ImageName it, Digest = d\<rparr> = Some ts \<and>
                 Tag it \<in> set ts)"
proof (intro allI impI)
  fix it :: ImageTag and d
  let ?k = "\<lparr>ImageDigest.ImageName = ImageTag.ImageName it, Digest = d\<rparr>"
  assume "Manifest_ToRegInvImageTag dords m it = Some d"
  then have "Manifest_tagged m (ImageTag.ImageName it) d (Tag it)"
    by (rule Manifest_ToRegInvImageTag_sound)
  then obtain img1 ts1 where img1: "img1 \<in> set (Images m)"
    "Image.ImageName img1 = ImageTag.ImageName it"
    and ts1: "Dmap img1 d = Some ts1" "Tag it \<in> set ts1"
    by (auto simp: Manifest_tagged_def split: option.splits)
  from Manifest_ToRegInvImageDigest_present [OF assms(3) img1(1) ts1(1)] img1(2)
  obtain ts where ts: "Manifest_ToRegInvImageDigest dords' m ?k = Some ts"
    by auto
  from Manifest_ToRegInvImageDigest_sound [OF ts]
  obtain img2 where img2: "img2 \<in> set (Images m)"
    "Image.ImageName img2 = ImageTag.ImageName it" "Dmap img2 d = Some ts"
    by auto
  from assms(1) img1 img2 ts1(1) have "set ts1 = set ts"
    unfolding repeated_digests_agree_def by metis
  with ts ts1(2) show "\<exists>ts. Manifest_ToRegInvImageDigest dords' m ?k = Some ts \<and> Tag it \<in> set ts"
    by blast
qed

theorem Manifest_views_consistent_witness:
  "repeated_digests_agree rep_m \<and> Manifest_order rep_m rep_dords \<and>
   \<not> distinct (map Image.ImageName (Images rep_m)) \<and>
   Manifest_ToRegInvImageTag rep_dords rep_m
     \<lparr>ImageTag.ImageName = ''foo'', Tag = ''v1''\<rparr> = Some ''d1'' \<and>
   (\<exists>ts. Manifest_ToRegInvImageDigest rep_dords rep_m
           \<lparr>ImageDigest.ImageName = ''foo'', Digest = ''d1''\<rparr> = Some ts \<and> ''v1'' \<in> set ts)"
proof -
  have agree: "repeated_digests_agree rep_m"
    by (auto simp: repeated_digests_agree_def rep_m_def split: if_splits)
  have order: "Manifest_order rep_m rep_dords"
    by (auto simp: Manifest_order_def map_order_def rep_m_def rep_dords_def)
  have names: "\<not> distinct (map Image.ImageName (Images rep_m))"
    by (simp add: rep_m_def)
  have v1: "Manifest_ToRegInvImageTag rep_dords rep_m
      \<lparr>ImageTag.ImageName = ''foo'', Tag = ''v1''\<rparr> = Some ''d1''"
    by (simp add: conversion_eval rep_m_def rep_dords_def)
  from Manifest_views_consistent [OF agree order order, rule_format, OF v1]
  have "\<exists>ts. Manifest_ToRegInvImageDigest rep_dords rep_m
           \<lparr>ImageDigest.ImageName = ''foo'', Digest = ''d1''\<rparr> = Some ts \<and> ''v1'' \<in> set ts"
    by simp
  with agree order names v1 show ?thesis by (intro conjI)
qed

section \<open>One digest per tag\<close>

text \<open>
  Claim C6. Every \<open>RegInvImageTag\<close> produced by a conversion function associates each
  of its \<open>ImageTag\<close> keys with exactly one digest, and that digest is one that
  carries the tag in the source structure. The write \<open>riit[it] = digest\<close> and the
  loop of such writes, the only operations the code performs on the view, keep it
  so.
\<close>

theorem RegInvImageTag_single_digest:
  "(\<forall>it \<in> dom (RegInvImage_ToRegInvImageTag io dord ri).
      \<exists>!d. RegInvImage_ToRegInvImageTag io dord ri it = Some d \<and>
           RegInvImage_tagged ri (ImageTag.ImageName it) d (Tag it)) \<and>
   (\<forall>it \<in> dom (RegInvImageDigest_ToRegInvImageTag ido riid).
      \<exists>!d. RegInvImageDigest_ToRegInvImageTag ido riid it = Some d \<and>
           RegInvImageDigest_tagged riid (ImageTag.ImageName it) d (Tag it)) \<and>
   (\<forall>it \<in> dom (Manifest_ToRegInvImageTag dords m).
      \<exists>!d. Manifest_ToRegInvImageTag dords m it = Some d \<and>
           Manifest_tagged m (ImageTag.ImageName it) d (Tag it)) \<and>
   (\<forall>it \<in> dom (riit(k \<mapsto> digest)). \<exists>!d. (riit(k \<mapsto> digest)) it = Some d) \<and>
   (\<forall>it \<in> dom (tag_loop i digest tagArray riit). \<exists>!d. tag_loop i digest tagArray riit it = Some d)"
proof (intro conjI ballI)
  fix it
  assume "it \<in> dom (RegInvImage_ToRegInvImageTag io dord ri)"
  then obtain d where d: "RegInvImage_ToRegInvImageTag io dord ri it = Some d" by blast
  from RegInvImage_ToRegInvImageTag_sound [OF d] d
  show "\<exists>!d. RegInvImage_ToRegInvImageTag io dord ri it = Some d \<and>
             RegInvImage_tagged ri (ImageTag.ImageName it) d (Tag it)"
    by (intro ex1I [of _ d]) simp_all
next
  fix it
  assume "it \<in> dom (RegInvImageDigest_ToRegInvImageTag ido riid)"
  then obtain d where d: "RegInvImageDigest_ToRegInvImageTag ido riid it = Some d" by blast
  from RegInvImageDigest_ToRegInvImageTag_sound [OF d] d
  show "\<exists>!d. RegInvImageDigest_ToRegInvImageTag ido riid it = Some d \<and>
             RegInvImageDigest_tagged riid (ImageTag.ImageName it) d (Tag it)"
    by (intro ex1I [of _ d]) simp_all
next
  fix it
  assume "it \<in> dom (Manifest_ToRegInvImageTag dords m)"
  then obtain d where d: "Manifest_ToRegInvImageTag dords m it = Some d" by blast
  from Manifest_ToRegInvImageTag_sound [OF d] d
  show "\<exists>!d. Manifest_ToRegInvImageTag dords m it = Some d \<and>
             Manifest_tagged m (ImageTag.ImageName it) d (Tag it)"
    by (intro ex1I [of _ d]) simp_all
next
  fix it
  assume "it \<in> dom (riit(k \<mapsto> digest))"
  then obtain d where "(riit(k \<mapsto> digest)) it = Some d" by blast
  then show "\<exists>!d. (riit(k \<mapsto> digest)) it = Some d"
    by (intro ex1I [of _ d]) simp_all
next
  fix it
  assume "it \<in> dom (tag_loop i digest tagArray riit)"
  then obtain d where "tag_loop i digest tagArray riit it = Some d" by blast
  then show "\<exists>!d. tag_loop i digest tagArray riit it = Some d"
    by (intro ex1I [of _ d]) simp_all
qed

theorem RegInvImageTag_single_digest_witness:
  "\<lparr>ImageTag.ImageName = ''foo'', Tag = ''v1''\<rparr>
     \<in> dom (RegInvImage_ToRegInvImageTag cx_io cx_dord cx_ri) \<and>
   (\<exists>!d. RegInvImage_ToRegInvImageTag cx_io cx_dord cx_ri
            \<lparr>ImageTag.ImageName = ''foo'', Tag = ''v1''\<rparr> = Some d \<and>
         RegInvImage_tagged cx_ri ''foo'' d ''v1'') \<and>
   \<lparr>ImageTag.ImageName = ''foo'', Tag = ''v2''\<rparr>
     \<in> dom (RegInvImageDigest_ToRegInvImageTag ex_ido ex_riid) \<and>
   (\<exists>!d. RegInvImageDigest_ToRegInvImageTag ex_ido ex_riid
            \<lparr>ImageTag.ImageName = ''foo'', Tag = ''v2''\<rparr> = Some d \<and>
         RegInvImageDigest_tagged ex_riid ''foo'' d ''v2'') \<and>
   \<lparr>ImageTag.ImageName = ''foo'', Tag = ''v1''\<rparr>
     \<in> dom (Manifest_ToRegInvImageTag cx_dords cx_m) \<and>
   (\<exists>!d. Manifest_ToRegInvImageTag cx_dords cx_m
            \<lparr>ImageTag.ImageName = ''foo'', Tag = ''v1''\<rparr> = Some d \<and>
         Manifest_tagged cx_m ''foo'' d ''v1'')"
proof -
  note single = RegInvImageTag_single_digest [of cx_io cx_dord cx_ri ex_ido ex_riid cx_dords cx_m]
  have a: "\<lparr>ImageTag.ImageName = ''foo'', Tag = ''v1''\<rparr>
             \<in> dom (RegInvImage_ToRegInvImageTag cx_io cx_dord cx_ri)"
    by (simp add: conversion_eval cx_ri_def cx_io_def cx_dord_def)
  have b: "\<lparr>ImageTag.ImageName = ''foo'', Tag = ''v2''\<rparr>
             \<in> dom (RegInvImageDigest_ToRegInvImageTag ex_ido ex_riid)"
    by (simp add: conversion_eval ex_riid_def ex_ido_def)
  have c: "\<lparr>ImageTag.ImageName = ''foo'', Tag = ''v1''\<rparr>
             \<in> dom (Manifest_ToRegInvImageTag cx_dords cx_m)"
    by (simp add: conversion_eval cx_m_def cx_dords_def)
  from single [THEN conjunct1, rule_format, OF a]
  have a': "\<exists>!d. RegInvImage_ToRegInvImageTag cx_io cx_dord cx_ri
            \<lparr>ImageTag.ImageName = ''foo'', Tag = ''v1''\<rparr> = Some d \<and>
         RegInvImage_tagged cx_ri ''foo'' d ''v1''"
    by simp
  from single [THEN conjunct2, THEN conjunct1, rule_format, OF b]
  have b': "\<exists>!d. RegInvImageDigest_ToRegInvImageTag ex_ido ex_riid
            \<lparr>ImageTag.ImageName = ''foo'', Tag = ''v2''\<rparr> = Some d \<and>
         RegInvImageDigest_tagged ex_riid ''foo'' d ''v2''"
    by simp
  from single [THEN conjunct2, THEN conjunct2, THEN conjunct1, rule_format, OF c]
  have c': "\<exists>!d. Manifest_ToRegInvImageTag cx_dords cx_m
            \<lparr>ImageTag.ImageName = ''foo'', Tag = ''v1''\<rparr> = Some d \<and>
         Manifest_tagged cx_m ''foo'' d ''v1''"
    by simp
  from a a' b b' c c' show ?thesis by (intro conjI)
qed

section \<open>The conversions leave their receiver alone\<close>

text \<open>
  Claim C7. The five conversions are pure. Run on any heap \<open>h\<close>, each allocates one
  object, the view it returns, and changes nothing else: the heap after the call is
  \<open>h\<close> followed by that object, so no entry of a source map and no element of a
  tag slice is added, removed or modified, and the value of the receiver is what it
  was. Nothing is retained from one call to the next: called again on the heap the
  first call left, with the same iteration order, the conversion returns a second
  view equal to the first.
\<close>

theorem conversions_pure:
  "(\<exists>view.
      heap_RegInvImage_ToRegInvImageDigest io dord ri h =
        (length h, h @ [RegInvImageDigestMap view]) \<and>
      RegInvImage_at (h @ [RegInvImageDigestMap view]) ri = RegInvImage_at h ri \<and>
      heap_RegInvImage_ToRegInvImageDigest io dord ri (h @ [RegInvImageDigestMap view]) =
        (Suc (length h), h @ [RegInvImageDigestMap view, RegInvImageDigestMap view])) \<and>
   (\<exists>view.
      heap_RegInvImage_ToRegInvImageTag io dord ri h =
        (length h, h @ [RegInvImageTagMap view]) \<and>
      RegInvImage_at (h @ [RegInvImageTagMap view]) ri = RegInvImage_at h ri \<and>
      heap_RegInvImage_ToRegInvImageTag io dord ri (h @ [RegInvImageTagMap view]) =
        (Suc (length h), h @ [RegInvImageTagMap view, RegInvImageTagMap view])) \<and>
   (\<exists>view.
      heap_RegInvImageDigest_ToRegInvImageTag ido riid h =
        (length h, h @ [RegInvImageTagMap view]) \<and>
      RegInvImageDigest_at (h @ [RegInvImageTagMap view]) riid = RegInvImageDigest_at h riid \<and>
      heap_RegInvImageDigest_ToRegInvImageTag ido riid (h @ [RegInvImageTagMap view]) =
        (Suc (length h), h @ [RegInvImageTagMap view, RegInvImageTagMap view])) \<and>
   (\<exists>view.
      heap_Manifest_ToRegInvImageDigest dords m h =
        (length h, h @ [RegInvImageDigestMap view]) \<and>
      Manifest_at (h @ [RegInvImageDigestMap view]) m = Manifest_at h m \<and>
      heap_Manifest_ToRegInvImageDigest dords m (h @ [RegInvImageDigestMap view]) =
        (Suc (length h), h @ [RegInvImageDigestMap view, RegInvImageDigestMap view])) \<and>
   (\<exists>view.
      heap_Manifest_ToRegInvImageTag dords m h =
        (length h, h @ [RegInvImageTagMap view]) \<and>
      Manifest_at (h @ [RegInvImageTagMap view]) m = Manifest_at h m \<and>
      heap_Manifest_ToRegInvImageTag dords m (h @ [RegInvImageTagMap view]) =
        (Suc (length h), h @ [RegInvImageTagMap view, RegInvImageTagMap view]))"
proof (intro conjI)
  show "\<exists>view.
      heap_RegInvImage_ToRegInvImageDigest io dord ri h =
        (length h, h @ [RegInvImageDigestMap view]) \<and>
      RegInvImage_at (h @ [RegInvImageDigestMap view]) ri = RegInvImage_at h ri \<and>
      heap_RegInvImage_ToRegInvImageDigest io dord ri (h @ [RegInvImageDigestMap view]) =
        (Suc (length h), h @ [RegInvImageDigestMap view, RegInvImageDigestMap view])"
    by (intro exI conjI, rule heap_RegInvImage_ToRegInvImageDigest_eq)
       (simp_all only: values_append_riid heap_RegInvImage_ToRegInvImageDigest_eq
          reads_append_riid length_append_singleton append_assoc append.simps)
  show "\<exists>view.
      heap_RegInvImage_ToRegInvImageTag io dord ri h =
        (length h, h @ [RegInvImageTagMap view]) \<and>
      RegInvImage_at (h @ [RegInvImageTagMap view]) ri = RegInvImage_at h ri \<and>
      heap_RegInvImage_ToRegInvImageTag io dord ri (h @ [RegInvImageTagMap view]) =
        (Suc (length h), h @ [RegInvImageTagMap view, RegInvImageTagMap view])"
    by (intro exI conjI, rule heap_RegInvImage_ToRegInvImageTag_eq)
       (simp_all only: values_append_riit heap_RegInvImage_ToRegInvImageTag_eq
          length_append_singleton append_assoc append.simps)
  show "\<exists>view.
      heap_RegInvImageDigest_ToRegInvImageTag ido riid h =
        (length h, h @ [RegInvImageTagMap view]) \<and>
      RegInvImageDigest_at (h @ [RegInvImageTagMap view]) riid = RegInvImageDigest_at h riid \<and>
      heap_RegInvImageDigest_ToRegInvImageTag ido riid (h @ [RegInvImageTagMap view]) =
        (Suc (length h), h @ [RegInvImageTagMap view, RegInvImageTagMap view])"
    by (intro exI conjI, rule heap_RegInvImageDigest_ToRegInvImageTag_eq)
       (simp_all only: values_append_riit heap_RegInvImageDigest_ToRegInvImageTag_eq
          length_append_singleton append_assoc append.simps)
  show "\<exists>view.
      heap_Manifest_ToRegInvImageDigest dords m h =
        (length h, h @ [RegInvImageDigestMap view]) \<and>
      Manifest_at (h @ [RegInvImageDigestMap view]) m = Manifest_at h m \<and>
      heap_Manifest_ToRegInvImageDigest dords m (h @ [RegInvImageDigestMap view]) =
        (Suc (length h), h @ [RegInvImageDigestMap view, RegInvImageDigestMap view])"
    by (intro exI conjI, rule heap_Manifest_ToRegInvImageDigest_eq)
       (simp_all only: values_append_riid heap_Manifest_ToRegInvImageDigest_eq
          reads_append_riid length_append_singleton append_assoc append.simps)
  show "\<exists>view.
      heap_Manifest_ToRegInvImageTag dords m h =
        (length h, h @ [RegInvImageTagMap view]) \<and>
      Manifest_at (h @ [RegInvImageTagMap view]) m = Manifest_at h m \<and>
      heap_Manifest_ToRegInvImageTag dords m (h @ [RegInvImageTagMap view]) =
        (Suc (length h), h @ [RegInvImageTagMap view, RegInvImageTagMap view])"
    by (intro exI conjI, rule heap_Manifest_ToRegInvImageTag_eq)
       (simp_all only: values_append_riit heap_Manifest_ToRegInvImageTag_eq
          length_append_singleton append_assoc append.simps)
qed

lemma ex_heap_value: "RegInvImage_at ex_heap 3 = ex_ri"
proof (rule ext)
  fix i
  have foo: "DigestTags_at ex_heap (Suc 0) = [''d1'' \<mapsto> [''v1'', ''v2''], ''d2'' \<mapsto> []]"
    by (rule ext)
       (simp add: DigestTags_at_def DigestTags_entries_def tags_of_def deref_def ex_heap_def)
  have bar: "DigestTags_at ex_heap 2 = [''d3'' \<mapsto> [''v1'']]"
    by (rule ext)
       (simp add: DigestTags_at_def DigestTags_entries_def tags_of_def deref_def ex_heap_def)
  have "RegInvImage_entries ex_heap 3 = [''foo'' \<mapsto> 1, ''bar'' \<mapsto> 2]"
    by (simp add: RegInvImage_entries_def deref_def ex_heap_def)
  then show "RegInvImage_at ex_heap 3 i = ex_ri i"
    by (simp add: RegInvImage_at_def ex_ri_def foo bar)
qed

theorem conversions_pure_witness:
  "length ex_heap = 4 \<and> RegInvImage_at ex_heap 3 = ex_ri \<and>
   (\<exists>view.
      heap_RegInvImage_ToRegInvImageTag ex_io ex_dord 3 ex_heap =
        (4, ex_heap @ [RegInvImageTagMap view]) \<and>
      RegInvImage_at (ex_heap @ [RegInvImageTagMap view]) 3 = ex_ri \<and>
      heap_RegInvImage_ToRegInvImageTag ex_io ex_dord 3 (ex_heap @ [RegInvImageTagMap view]) =
        (5, ex_heap @ [RegInvImageTagMap view, RegInvImageTagMap view]))"
proof -
  have len: "length ex_heap = 4"
    by (simp add: ex_heap_def)
  from conversions_pure [of ex_io ex_dord 3 ex_heap, THEN conjunct2, THEN conjunct1]
  have "\<exists>view.
      heap_RegInvImage_ToRegInvImageTag ex_io ex_dord 3 ex_heap =
        (length ex_heap, ex_heap @ [RegInvImageTagMap view]) \<and>
      RegInvImage_at (ex_heap @ [RegInvImageTagMap view]) 3 = RegInvImage_at ex_heap 3 \<and>
      heap_RegInvImage_ToRegInvImageTag ex_io ex_dord 3 (ex_heap @ [RegInvImageTagMap view]) =
        (Suc (length ex_heap), ex_heap @ [RegInvImageTagMap view, RegInvImageTagMap view])" .
  then show ?thesis
    by (simp add: len ex_heap_value)
qed

text \<open>
  The heap model and the model on values agree: the view a conversion leaves on
  the heap is the conversion, as defined on values, of the value its receiver
  stands for.
\<close>

theorem heap_conversions_compute_values:
  "RegInvImageDigest_at (snd (heap_RegInvImage_ToRegInvImageDigest io dord ri h))
       (fst (heap_RegInvImage_ToRegInvImageDigest io dord ri h)) =
     RegInvImage_ToRegInvImageDigest io dord (RegInvImage_at h ri) \<and>
   RegInvImageTag_at (snd (heap_RegInvImage_ToRegInvImageTag io dord ri h))
       (fst (heap_RegInvImage_ToRegInvImageTag io dord ri h)) =
     RegInvImage_ToRegInvImageTag io dord (RegInvImage_at h ri) \<and>
   RegInvImageTag_at (snd (heap_RegInvImageDigest_ToRegInvImageTag ido riid h))
       (fst (heap_RegInvImageDigest_ToRegInvImageTag ido riid h)) =
     RegInvImageDigest_ToRegInvImageTag ido (RegInvImageDigest_at h riid) \<and>
   RegInvImageDigest_at (snd (heap_Manifest_ToRegInvImageDigest dords m h))
       (fst (heap_Manifest_ToRegInvImageDigest dords m h)) =
     Manifest_ToRegInvImageDigest dords (Manifest_at h m) \<and>
   RegInvImageTag_at (snd (heap_Manifest_ToRegInvImageTag dords m h))
       (fst (heap_Manifest_ToRegInvImageTag dords m h)) =
     Manifest_ToRegInvImageTag dords (Manifest_at h m)"
  by (simp only: heap_RegInvImage_ToRegInvImageDigest_value heap_Manifest_ToRegInvImageDigest_value
      heap_RegInvImage_ToRegInvImageTag_eq heap_RegInvImageDigest_ToRegInvImageTag_eq
      heap_Manifest_ToRegInvImageTag_eq fst_conv snd_conv RegInvImageTag_at_last simp_thms)

end
